theory Spec2Isabelle
  imports Main "HOL-Library.Word"
begin

section \<open>Data model of \<open>physical_batch_copy_to_file.cpp\<close>\<close>

text \<open>
  \<open>idx_t\<close> is DuckDB's unsigned 64-bit index type: row counts, batch sizes and batch
  indices are all \<open>idx_t\<close>, so additions wrap modulo \<open>2 ^ 64\<close> and the casts to
  \<open>int64_t\<close> reinterpret the same 64 bits.
\<close>

type_synonym idx_t = "64 word"

text \<open>
  Modelled from the spec: \<open>DataChunk\<close> and \<open>ColumnDataCollection\<close> are declared outside
  the supplied sources. The spec describes the collection as an append-only, chunked
  container of rows with a count and a sequence of chunks. A chunk is the list of its
  rows; a collection is the list of its chunks in append order. \<open>Count\<close> is an \<open>idx_t\<close>.
\<close>

type_synonym 'r DataChunk = "'r list"
type_synonym 'r ColumnDataCollection = "'r DataChunk list"

definition chunk_size :: "'r DataChunk \<Rightarrow> idx_t" where
  "chunk_size chunk = word_of_nat (length chunk)"

definition Rows :: "'r ColumnDataCollection \<Rightarrow> 'r list" where
  "Rows c = concat c"

definition Count :: "'r ColumnDataCollection \<Rightarrow> idx_t" where
  "Count c = word_of_nat (length (Rows c))"

definition Chunks :: "'r ColumnDataCollection \<Rightarrow> 'r DataChunk list" where
  "Chunks c = c"

definition Append :: "'r ColumnDataCollection \<Rightarrow> 'r DataChunk \<Rightarrow> 'r ColumnDataCollection" where
  "Append c chunk = c @ [chunk]"

text \<open>
  Modelled from the spec: \<open>prepare_batch\<close> and \<open>flush_batch\<close> are hooks of the copy
  function, supplied by the format writer. The prepared form is opaque beyond ownership
  transfer, so it is the collection it was made from; \<open>flush_batch\<close> appends the prepared
  batch to the physical sink, which is the writer's \<open>GlobalFunctionData\<close>. Each entry of
  the sink also records which mutex of the global sink state the calling code held at the
  call (\<open>gstate.lock\<close> or \<open>gstate.flush_lock\<close>).
\<close>

datatype 'r PreparedBatchData = PreparedBatchData (prepared_collection: "'r ColumnDataCollection")

datatype mutex = Lock | FlushLock

type_synonym 'r GlobalFunctionData = "(mutex \<times> 'r PreparedBatchData) list"

definition prepare_batch :: "'r ColumnDataCollection \<Rightarrow> 'r PreparedBatchData" where
  "prepare_batch collection = PreparedBatchData collection"

definition flush_batch :: "mutex \<Rightarrow> 'r GlobalFunctionData \<Rightarrow> 'r PreparedBatchData \<Rightarrow> 'r GlobalFunctionData" where
  "flush_batch held gs batch = gs @ [(held, batch)]"

definition flushed_rows :: "'r GlobalFunctionData \<Rightarrow> 'r list" where
  "flushed_rows gs = concat (map (\<lambda>e. Rows (prepared_collection (snd e))) gs)"

text \<open>
  \<open>BatchCopyToGlobalState\<close>. A \<open>std::map<idx_t, _>\<close> is a list of key-value pairs in
  strictly increasing key order: \<open>begin()\<close> is the head, iteration is left to right.
  The values of \<open>batch_data\<close> are \<open>unique_ptr\<close>s that \<open>FlushBatchData\<close> tests for null,
  hence the \<open>option\<close>.
\<close>

record 'r BatchCopyToGlobalState =
  rows_copied :: idx_t
  global_state :: "'r GlobalFunctionData"
  batch_size :: idx_t
  raw_batches :: "(idx_t \<times> 'r ColumnDataCollection) list"
  batch_data :: "(idx_t \<times> 'r PreparedBatchData option) list"
  active_flush :: bool

text \<open>The constructor, with \<open>batch_size\<close> as \<open>GetGlobalSinkState\<close> then sets it.\<close>

definition GetGlobalSinkState :: "idx_t \<Rightarrow> 'r BatchCopyToGlobalState" where
  "GetGlobalSinkState desired_batch_size =
     \<lparr>rows_copied = 0, global_state = [], batch_size = desired_batch_size,
      raw_batches = [], batch_data = [], active_flush = False\<rparr>"

text \<open>
  \<open>OperatorPartitionInfo\<close> is filled in by the scheduler before \<open>NextBatch\<close>: the index
  of the batch that starts, and the smallest batch index still in flight.
\<close>

record OperatorPartitionInfo =
  partition_batch_index :: idx_t
  partition_min_batch_index :: idx_t

text \<open>
  \<open>BatchCopyToLocalState\<close>; \<open>collection\<close> is a \<open>unique_ptr\<close>, null until the first
  \<open>InitializeCollection\<close>. Its counter \<open>rows_copied\<close> is \<open>local_rows_copied\<close> here, the
  name being taken by the counter of the global state.
\<close>

record 'r BatchCopyToLocalState =
  collection :: "'r ColumnDataCollection option"
  local_rows_copied :: idx_t
  batch_index :: idx_t
  partition_info :: OperatorPartitionInfo

definition GetLocalSinkState :: "OperatorPartitionInfo \<Rightarrow> 'r BatchCopyToLocalState" where
  "GetLocalSinkState info =
     \<lparr>collection = None, local_rows_copied = 0, batch_index = 0, partition_info = info\<rparr>"

definition InitializeCollection :: "'r BatchCopyToLocalState \<Rightarrow> 'r BatchCopyToLocalState" where
  "InitializeCollection state = state\<lparr>collection := Some []\<rparr>"

text \<open>
  Exceptions. \<open>DuplicateBatchIndex\<close> is the \<open>InternalException\<close> of \<open>AddBatchData\<close> and
  \<open>PrepareBatchData\<close>; \<open>NullPointerDereference\<close> is what dereferencing an empty
  \<open>unique_ptr\<close> ends in; \<open>UninitializedRead\<close> is a read of a local variable
  that was declared without a value and never assigned. A function that can throw
  returns an \<open>outcome\<close>: \<open>Done\<close> with the state on return, or \<open>Raised\<close> with the
  exception and the state at the throw.
\<close>

datatype error = DuplicateBatchIndex idx_t | NullPointerDereference | UninitializedRead

datatype 's outcome = Done 's | Raised error 's

fun outcome_state :: "'s outcome \<Rightarrow> 's" where
  "outcome_state (Done s) = s"
| "outcome_state (Raised e s) = s"

section \<open>The two maps\<close>

text \<open>\<open>std::map::insert\<close>: the map is unchanged and the flag is false when the key exists.\<close>

fun map_insert :: "idx_t \<Rightarrow> 'v \<Rightarrow> (idx_t \<times> 'v) list \<Rightarrow> (idx_t \<times> 'v) list \<times> bool" where
  "map_insert k v [] = ([(k, v)], True)"
| "map_insert k v ((k', v') # m) =
     (if k < k' then ((k, v) # (k', v') # m, True)
      else if k = k' then ((k', v') # m, False)
      else (case map_insert k v m of (m', inserted) \<Rightarrow> ((k', v') # m', inserted)))"

text \<open>\<open>m[k] = v\<close>: insert, or overwrite the value stored under \<open>k\<close>.\<close>

fun map_assign :: "idx_t \<Rightarrow> 'v \<Rightarrow> (idx_t \<times> 'v) list \<Rightarrow> (idx_t \<times> 'v) list" where
  "map_assign k v [] = [(k, v)]"
| "map_assign k v ((k', v') # m) =
     (if k < k' then (k, v) # (k', v') # m
      else if k = k' then (k, v) # m
      else (k', v') # map_assign k v m)"

section \<open>Sink, Combine, GetData\<close>

definition Sink :: "'r BatchCopyToLocalState \<Rightarrow> 'r DataChunk \<Rightarrow> 'r BatchCopyToLocalState" where
  "Sink state chunk =
     (let initialized = (if collection state = None then InitializeCollection state else state);
          counted = initialized\<lparr>local_rows_copied := local_rows_copied initialized + chunk_size chunk\<rparr>
      in counted\<lparr>collection := map_option (\<lambda>c. Append c chunk) (collection counted)\<rparr>)"

definition Combine :: "'r BatchCopyToGlobalState \<Rightarrow> 'r BatchCopyToLocalState \<Rightarrow> 'r BatchCopyToGlobalState" where
  "Combine gstate state = gstate\<lparr>rows_copied := rows_copied gstate + local_rows_copied state\<rparr>"

text \<open>\<open>Value::BIGINT(g.rows_copied)\<close>: the counter converted to \<open>int64_t\<close>.\<close>

definition GetData :: "'r BatchCopyToGlobalState \<Rightarrow> int" where
  "GetData g = sint (rows_copied g)"

section \<open>AddBatchData and PrepareBatchData\<close>

definition AddBatchData ::
  "'r BatchCopyToGlobalState \<Rightarrow> idx_t \<Rightarrow> 'r ColumnDataCollection \<Rightarrow> 'r BatchCopyToGlobalState outcome" where
  "AddBatchData gstate batch_index_p collection_p =
     (case map_insert batch_index_p collection_p (raw_batches gstate) of
        (m, inserted) \<Rightarrow>
          if \<not> inserted then Raised (DuplicateBatchIndex batch_index_p) gstate
          else Done (gstate\<lparr>raw_batches := m\<rparr>))"

definition PrepareBatchData ::
  "'r BatchCopyToGlobalState \<Rightarrow> idx_t \<Rightarrow> 'r ColumnDataCollection \<Rightarrow> 'r BatchCopyToGlobalState outcome" where
  "PrepareBatchData gstate batch_index_p collection_p =
     (let batch = prepare_batch collection_p in
      case map_insert batch_index_p (Some batch) (batch_data gstate) of
        (m, inserted) \<Rightarrow>
          if \<not> inserted then Raised (DuplicateBatchIndex batch_index_p) gstate
          else Done (gstate\<lparr>batch_data := m\<rparr>))"

section \<open>RepartitionBatches\<close>

text \<open>
  Modelled from the spec: \<open>AbsValue\<close> and \<open>STANDARD_VECTOR_SIZE\<close> are defined outside
  the supplied sources. The spec reads the test of \<open>CorrectSizeForBatch\<close> as a row count
  within one chunk's width of the target size: \<open>AbsValue<int64_t>\<close> is the absolute
  value, \<open>a < 0 ? -a : a\<close> on the signed reading of the 64 bits, and
  \<open>STANDARD_VECTOR_SIZE\<close> is the number of rows of a full chunk. It is the first
  argument of every function that uses it.
\<close>

definition AbsValue :: "64 word \<Rightarrow> 64 word" where
  "AbsValue a = (if a <s 0 then - a else a)"

definition CorrectSizeForBatch :: "idx_t \<Rightarrow> idx_t \<Rightarrow> idx_t \<Rightarrow> bool" where
  "CorrectSizeForBatch vector_size collection_size desired_size =
     (AbsValue (collection_size - desired_size) < vector_size)"

text \<open>The first loop: the rows of the entries below \<open>min_index\<close>, summed as \<open>idx_t\<close>.\<close>

fun candidate_rows :: "idx_t \<Rightarrow> (idx_t \<times> 'r ColumnDataCollection) list \<Rightarrow> idx_t \<Rightarrow> idx_t" where
  "candidate_rows min_index [] acc = acc"
| "candidate_rows min_index ((k, c) # m) acc =
     (if k \<ge> min_index then acc else candidate_rows min_index m (acc + Count c))"

text \<open>
  The second loop moves the entries below \<open>min_index\<close> out of the map. It returns
  \<open>max_batch_index\<close> (\<open>None\<close> while never assigned), the collections gathered and what
  is left of the map.
\<close>

fun gather ::
  "idx_t \<Rightarrow> (idx_t \<times> 'r ColumnDataCollection) list \<Rightarrow> idx_t option \<Rightarrow> 'r ColumnDataCollection list
   \<Rightarrow> idx_t option \<times> 'r ColumnDataCollection list \<times> (idx_t \<times> 'r ColumnDataCollection) list" where
  "gather min_index [] max_batch_index collections = (max_batch_index, collections, [])"
| "gather min_index ((k, c) # m) max_batch_index collections =
     (if k \<ge> min_index then (max_batch_index, collections, (k, c) # m)
      else gather min_index m (Some k) (collections @ [c]))"

text \<open>
  The inner loop over the chunks of one collection: append, and when the batch size is
  reached move the current collection to the result and start an empty one.
\<close>

fun append_chunks ::
  "idx_t \<Rightarrow> 'r DataChunk list \<Rightarrow> 'r ColumnDataCollection list \<Rightarrow> 'r ColumnDataCollection
   \<Rightarrow> 'r ColumnDataCollection list \<times> 'r ColumnDataCollection" where
  "append_chunks desired [] result current_collection = (result, current_collection)"
| "append_chunks desired (chunk # chunks) result current_collection =
     (let appended = Append current_collection chunk in
      if Count appended < desired then append_chunks desired chunks result appended
      else append_chunks desired chunks (result @ [appended]) [])"

text \<open>The outer loop over the gathered collections; \<open>current_collection\<close> starts null.\<close>

fun repartition ::
  "idx_t \<Rightarrow> idx_t \<Rightarrow> 'r ColumnDataCollection list \<Rightarrow> 'r ColumnDataCollection list
   \<Rightarrow> 'r ColumnDataCollection option
   \<Rightarrow> 'r ColumnDataCollection list \<times> 'r ColumnDataCollection option" where
  "repartition vector_size desired [] result current_collection = (result, current_collection)"
| "repartition vector_size desired (c # collections) result None =
     (if CorrectSizeForBatch vector_size (Count c) desired
      then repartition vector_size desired collections (result @ [c]) None
      else if Count c < desired
      then repartition vector_size desired collections result (Some c)
      else (case append_chunks desired (Chunks c) result [] of
              (result', current) \<Rightarrow> repartition vector_size desired collections result' (Some current)))"
| "repartition vector_size desired (c # collections) result (Some current_collection) =
     (case append_chunks desired (Chunks c) result current_collection of
        (result', current) \<Rightarrow> repartition vector_size desired collections result' (Some current))"

text \<open>The last loop: each result is prepared and flushed, still under \<open>gstate.lock\<close>.\<close>

fun prepare_and_flush ::
  "'r ColumnDataCollection list \<Rightarrow> 'r GlobalFunctionData \<Rightarrow> 'r GlobalFunctionData" where
  "prepare_and_flush [] gs = gs"
| "prepare_and_flush (res # result) gs =
     prepare_and_flush result (flush_batch Lock gs (prepare_batch res))"

definition RepartitionBatches ::
  "idx_t \<Rightarrow> 'r BatchCopyToGlobalState \<Rightarrow> idx_t \<Rightarrow> bool \<Rightarrow> 'r BatchCopyToGlobalState outcome" where
  "RepartitionBatches vector_size gstate min_index final =
     (if raw_batches gstate = [] then Done gstate
      else if \<not> final \<and> candidate_rows min_index (raw_batches gstate) 0 < batch_size gstate
      then Done gstate
      else
        (case gather min_index (raw_batches gstate) None [] of
           (max_batch_index, collections, remaining) \<Rightarrow>
        (case repartition vector_size (batch_size gstate) collections [] None of
           (result, current_collection) \<Rightarrow>
        (let gathered = gstate\<lparr>raw_batches := remaining\<rparr> in
         (case current_collection of
            None \<Rightarrow> Raised NullPointerDereference gathered
          | Some current \<Rightarrow>
              if Count current > 0 then
                if final \<or> CorrectSizeForBatch vector_size (Count current) (batch_size gstate)
                then Done (gathered\<lparr>global_state :=
                             prepare_and_flush (result @ [current]) (global_state gstate)\<rparr>)
                else (case max_batch_index of
                        None \<Rightarrow> Raised UninitializedRead gathered
                      | Some k \<Rightarrow>
                          Done (gathered\<lparr>raw_batches := map_assign k current remaining,
                                          global_state := prepare_and_flush result (global_state gstate)\<rparr>))
              else Done (gathered\<lparr>global_state := prepare_and_flush result (global_state gstate)\<rparr>))))))"

section \<open>FlushBatchData\<close>

text \<open>
  One iteration of the \<open>while (!gstate.active_flush)\<close> loop per call. The three \<open>break\<close>s
  leave the loop with the flag as the iteration set it; only an iteration that reaches
  \<open>flush_batch\<close> clears it again.
\<close>

function FlushBatchData :: "'r BatchCopyToGlobalState \<Rightarrow> idx_t \<Rightarrow> 'r BatchCopyToGlobalState" where
  "FlushBatchData gstate min_index =
     (if active_flush gstate then gstate
      else
        let flagged = gstate\<lparr>active_flush := True\<rparr> in
        case batch_data flagged of
          [] \<Rightarrow> flagged
        | (k, entry) # rest \<Rightarrow>
            if k \<ge> min_index then flagged
            else (case entry of
                    None \<Rightarrow> flagged
                  | Some batch \<Rightarrow>
                      FlushBatchData
                        (flagged\<lparr>batch_data := rest,
                                 global_state := flush_batch FlushLock (global_state flagged) batch,
                                 active_flush := False\<rparr>)
                        min_index))"
  by pat_completeness auto
termination
  by (relation "measure (\<lambda>(gstate, min_index). length (batch_data gstate))") auto

declare FlushBatchData.simps [simp del]

section \<open>NextBatch and Finalize\<close>

definition NextBatch ::
  "idx_t \<Rightarrow> 'r BatchCopyToGlobalState \<Rightarrow> 'r BatchCopyToLocalState
   \<Rightarrow> ('r BatchCopyToGlobalState \<times> 'r BatchCopyToLocalState) outcome" where
  "NextBatch vector_size gstate state =
     (let moved = state\<lparr>collection := None\<rparr>;
          proceed = (\<lambda>g s. Done (g, InitializeCollection
                       (s\<lparr>batch_index := partition_batch_index (partition_info s)\<rparr>)))
      in
      case collection state of
        None \<Rightarrow> proceed gstate state
      | Some c \<Rightarrow>
          let min_batch_index = partition_min_batch_index (partition_info state) in
          if batch_size gstate \<noteq> 0 then
            (case AddBatchData gstate (batch_index state) c of
               Raised e g \<Rightarrow> Raised e (g, moved)
             | Done added \<Rightarrow>
                 (case RepartitionBatches vector_size added min_batch_index False of
                    Raised e g \<Rightarrow> Raised e (g, moved)
                  | Done repartitioned \<Rightarrow>
                      proceed (FlushBatchData repartitioned min_batch_index) moved))
          else
            (case PrepareBatchData gstate (batch_index state) c of
               Raised e g \<Rightarrow> Raised e (g, moved)
             | Done prepared \<Rightarrow> proceed (FlushBatchData prepared min_batch_index) moved))"

text \<open>
  \<open>Finalize\<close>, with the watermark \<open>idx_t(NumericLimits<int64_t>::Maximum())\<close>. The
  \<open>copy_to_finalize\<close> hook and \<open>MoveTmpFile\<close> act on the file only and are left out.
\<close>

definition Finalize :: "idx_t \<Rightarrow> 'r BatchCopyToGlobalState \<Rightarrow> 'r BatchCopyToGlobalState outcome" where
  "Finalize vector_size gstate =
     (let min_batch_index = (0x7FFFFFFFFFFFFFFF :: idx_t) in
      case (if raw_batches gstate \<noteq> [] then RepartitionBatches vector_size gstate min_batch_index True
            else Done gstate) of
        Raised e g \<Rightarrow> Raised e g
      | Done repartitioned \<Rightarrow> Done (FlushBatchData repartitioned min_batch_index))"

section \<open>Predicates and inputs used in the statements\<close>

text \<open>The invariant of a \<open>std::map\<close>: keys strictly increasing, so in particular distinct.\<close>

definition strictly_ordered :: "(idx_t \<times> 'v) list \<Rightarrow> bool" where
  "strictly_ordered m = sorted_wrt (<) (map fst m)"

text \<open>The rows held by the raw entries whose index is below \<open>min_index\<close>, as a number.\<close>

definition rows_below :: "idx_t \<Rightarrow> (idx_t \<times> 'r ColumnDataCollection) list \<Rightarrow> nat" where
  "rows_below min_index m =
     sum_list (map (\<lambda>e. length (Rows (snd e))) (filter (\<lambda>e. fst e < min_index) m))"

text \<open>A state with raw batches 3 and 5 and prepared batch 4.\<close>

definition g_dup :: "nat BatchCopyToGlobalState" where
  "g_dup = (GetGlobalSinkState 0)\<lparr>raw_batches := [(3, [[1, 2]]), (5, [[3]])],
                                  batch_data := [(4, Some (PreparedBatchData [[9]]))]\<rparr>"

text \<open>Target size 1000; five rows below watermark 2, one row above it.\<close>

definition g_starved :: "nat BatchCopyToGlobalState" where
  "g_starved = (GetGlobalSinkState 1000)\<lparr>raw_batches := [(0, [[1, 2], [3]]), (1, [[4, 5]]), (7, [[6]])]\<rparr>"

section \<open>Executions\<close>

text \<open>
  Modelled from the spec: the scheduler that drives the sink is outside the supplied
  sources. The spec has several producers, each with a local state of its own, that call
  \<open>Sink\<close> and \<open>NextBatch\<close> in any interleaving, with the new batch index and the
  watermark supplied on each batch transition; then every local state is combined into
  the global state, and \<open>Finalize\<close> runs. An execution is a list of such calls, each an
  atomic step; producer \<open>t\<close> owns the \<open>t\<close>-th local state. A call for a producer that
  does not exist is no step. An exception ends the execution.
\<close>

datatype 'r event =
    SinkEvent nat "'r DataChunk"
  | NextBatchEvent nat idx_t idx_t
  | CombineEvent nat
  | FinalizeEvent

type_synonym 'r sink_state = "'r BatchCopyToGlobalState \<times> 'r BatchCopyToLocalState list"

fun step :: "idx_t \<Rightarrow> 'r event \<Rightarrow> 'r sink_state \<Rightarrow> 'r sink_state outcome" where
  "step vector_size (SinkEvent t chunk) (g, ls) =
     Done (g, if t < length ls then ls[t := Sink (ls ! t) chunk] else ls)"
| "step vector_size (NextBatchEvent t next_index min_index) (g, ls) =
     (if t < length ls then
        (case NextBatch vector_size g
                ((ls ! t)\<lparr>partition_info := \<lparr>partition_batch_index = next_index,
                                              partition_min_batch_index = min_index\<rparr>\<rparr>) of
           Done (g', l') \<Rightarrow> Done (g', ls[t := l'])
         | Raised e (g', l') \<Rightarrow> Raised e (g', ls[t := l']))
      else Done (g, ls))"
| "step vector_size (CombineEvent t) (g, ls) =
     Done (if t < length ls then Combine g (ls ! t) else g, ls)"
| "step vector_size FinalizeEvent (g, ls) =
     (case Finalize vector_size g of
        Done g' \<Rightarrow> Done (g', ls)
      | Raised e g' \<Rightarrow> Raised e (g', ls))"

fun run :: "idx_t \<Rightarrow> 'r event list \<Rightarrow> 'r sink_state \<Rightarrow> 'r sink_state outcome" where
  "run vector_size [] s = Done s"
| "run vector_size (ev # evs) s =
     (case step vector_size ev s of
        Done s' \<Rightarrow> run vector_size evs s'
      | Raised e s' \<Rightarrow> Raised e s')"

definition initial_state :: "idx_t \<Rightarrow> nat \<Rightarrow> 'r sink_state" where
  "initial_state desired_batch_size producers =
     (GetGlobalSinkState desired_batch_size,
      replicate producers (GetLocalSinkState \<lparr>partition_batch_index = 0, partition_min_batch_index = 0\<rparr>))"

text \<open>
  A schedule is well formed for the producers \<open>live\<close> when every call is made for a
  producer that has not been combined yet and every producer is combined once.
\<close>

fun scheduled :: "nat list \<Rightarrow> 'r event list \<Rightarrow> bool" where
  "scheduled live [] = (live = [])"
| "scheduled live (SinkEvent t chunk # evs) = (t \<in> set live \<and> scheduled live evs)"
| "scheduled live (NextBatchEvent t next_index min_index # evs) = (t \<in> set live \<and> scheduled live evs)"
| "scheduled live (CombineEvent t # evs) = (t \<in> set live \<and> scheduled (remove1 t live) evs)"
| "scheduled live (FinalizeEvent # evs) = scheduled live evs"

text \<open>The number of rows passed to \<open>Sink\<close> in an execution.\<close>

fun sunk_rows :: "'r event list \<Rightarrow> nat" where
  "sunk_rows [] = 0"
| "sunk_rows (SinkEvent t chunk # evs) = length chunk + sunk_rows evs"
| "sunk_rows (ev # evs) = sunk_rows evs"

text \<open>
  Two producers and target size 5: batch 1 is completed before batch 0, and the local
  states are combined in the order 1, 0.
\<close>

definition schedule_counted :: "nat event list" where
  "schedule_counted =
     [NextBatchEvent 0 0 0, NextBatchEvent 1 1 0, SinkEvent 0 [10, 11], SinkEvent 1 [12],
      NextBatchEvent 1 3 0, SinkEvent 0 [13], NextBatchEvent 0 2 2,
      CombineEvent 1, CombineEvent 0, FinalizeEvent]"

text \<open>
  No target batch size, two producers: producer 1 completes batch 1 while batch 0 is
  still in flight, then producer 0 completes batch 0.
\<close>

definition schedule_out_of_order :: "nat event list" where
  "schedule_out_of_order =
     [NextBatchEvent 0 0 0, NextBatchEvent 1 1 0, SinkEvent 0 [10, 11], SinkEvent 1 [12],
      NextBatchEvent 1 3 0, NextBatchEvent 0 2 2,
      CombineEvent 0, CombineEvent 1, FinalizeEvent]"

text \<open>No target batch size, one producer: batch 0 with two rows, then batch 1 with one row.\<close>

definition schedule_two_batches :: "nat event list" where
  "schedule_two_batches =
     [NextBatchEvent 0 0 0, SinkEvent 0 [10, 11], NextBatchEvent 0 1 1, SinkEvent 0 [12],
      NextBatchEvent 0 2 2, CombineEvent 0, FinalizeEvent]"

text \<open>The state after a first flush attempt that found nothing to flush.\<close>

definition g_after_idle_flush :: "nat BatchCopyToGlobalState" where
  "g_after_idle_flush = FlushBatchData (GetGlobalSinkState 0) 1"

text \<open>The rows of a raw map, in key order.\<close>

definition raw_rows :: "(idx_t \<times> 'r ColumnDataCollection) list \<Rightarrow> 'r list" where
  "raw_rows m = concat (map (\<lambda>e. Rows (snd e)) m)"

text \<open>The rows of the accumulator of the repartition loop; none while it is null.\<close>

fun current_rows :: "'r ColumnDataCollection option \<Rightarrow> 'r list" where
  "current_rows None = []"
| "current_rows (Some c) = Rows c"

text \<open>
  A collection is within tolerance of the target size when its row count differs from
  it by less than \<open>STANDARD_VECTOR_SIZE\<close>. A \<open>DataChunk\<close> holds at most
  \<open>STANDARD_VECTOR_SIZE\<close> rows; \<open>chunks_bounded\<close> says so of every chunk in a raw map.
\<close>

definition within_tolerance :: "idx_t \<Rightarrow> idx_t \<Rightarrow> 'r ColumnDataCollection \<Rightarrow> bool" where
  "within_tolerance vector_size desired c =
     (\<bar>int (length (Rows c)) - int (unat desired)\<bar> < int (unat vector_size))"

definition chunks_bounded :: "idx_t \<Rightarrow> (idx_t \<times> 'r ColumnDataCollection) list \<Rightarrow> bool" where
  "chunks_bounded vector_size m =
     (\<forall>e \<in> set m. \<forall>chunk \<in> set (Chunks (snd e)). length chunk \<le> unat vector_size)"

text \<open>Target size 4: batch 0 with two rows, batch 1 with three rows in two chunks.\<close>

definition g_pass :: "nat BatchCopyToGlobalState" where
  "g_pass = (GetGlobalSinkState 4)\<lparr>raw_batches := [(0, [[1, 2]]), (1, [[3, 4], [5]])]\<rparr>"

text \<open>Target size 3 and one raw batch of exactly three rows.\<close>

definition g_exact :: "nat BatchCopyToGlobalState" where
  "g_exact = (GetGlobalSinkState 3)\<lparr>raw_batches := [(0, [[1, 2, 3]])]\<rparr>"

text \<open>A local state after its first \<open>NextBatch\<close>: batch 0, an empty collection, nothing sunk.\<close>

definition l_empty :: "nat BatchCopyToLocalState" where
  "l_empty = \<lparr>collection = Some [], local_rows_copied = 0, batch_index = 0,
               partition_info = \<lparr>partition_batch_index = 1, partition_min_batch_index = 1\<rparr>\<rparr>"

text \<open>One producer that starts batch 0 and moves on to batch 1 without a single row.\<close>

definition schedule_empty_batch :: "nat event list" where
  "schedule_empty_batch = [NextBatchEvent 0 0 0, NextBatchEvent 0 1 1]"

text \<open>
  A producer that ends batch 1 without a row, and a raw map with target size 2 that
  already holds batch 0 with three rows.
\<close>

definition l_next :: "nat BatchCopyToLocalState" where
  "l_next = \<lparr>collection = Some [], local_rows_copied = 3, batch_index = 1,
              partition_info = \<lparr>partition_batch_index = 2, partition_min_batch_index = 2\<rparr>\<rparr>"

definition g_busy :: "nat BatchCopyToGlobalState" where
  "g_busy = (GetGlobalSinkState 2)\<lparr>raw_batches := [(0, [[7, 8], [9]])]\<rparr>"

text \<open>Batch 0 is already in the raw map (target size 5), or in the prepared map.\<close>

definition g_raw_taken :: "nat BatchCopyToGlobalState" where
  "g_raw_taken = (GetGlobalSinkState 5)\<lparr>raw_batches := [(0, [[1]])]\<rparr>"

definition g_prepared_taken :: "nat BatchCopyToGlobalState" where
  "g_prepared_taken = (GetGlobalSinkState 0)\<lparr>batch_data := [(0, Some (PreparedBatchData [[1]]))]\<rparr>"

text \<open>Both maps of a global state are in strictly increasing key order.\<close>

definition maps_ordered :: "'r BatchCopyToGlobalState \<Rightarrow> bool" where
  "maps_ordered gstate \<longleftrightarrow> strictly_ordered (raw_batches gstate) \<and> strictly_ordered (batch_data gstate)"

section \<open>Verified properties\<close>

subsection \<open>The maps keep their order\<close>

lemma strictly_ordered_Cons:
  "strictly_ordered ((k, v) # m) \<longleftrightarrow> (\<forall>x \<in> set m. k < fst x) \<and> strictly_ordered m"
  by (auto simp: strictly_ordered_def)

lemma map_insert_present:
  "strictly_ordered m \<Longrightarrow> k \<in> fst ` set m \<Longrightarrow> map_insert k v m = (m, False)"
proof (induction m)
  case Nil
  then show ?case by simp
next
  case (Cons e m)
  obtain k' v' where e: "e = (k', v')" by (cases e)
  from Cons.prems(1) have above: "\<forall>x \<in> set m. k' < fst x" and ord: "strictly_ordered m"
    by (simp_all add: e strictly_ordered_Cons)
  show ?case
  proof (cases "k = k'")
    case True
    then show ?thesis by (simp add: e)
  next
    case False
    with Cons.prems(2) have mem: "k \<in> fst ` set m" by (auto simp: e)
    with above have "k' < k" by auto
    then have "\<not> k < k'" by auto
    with False Cons.IH [OF ord mem] show ?thesis by (simp add: e)
  qed
qed

lemma map_insert_keys:
  "fst ` set (fst (map_insert k v m)) \<subseteq> insert k (fst ` set m)"
proof (induction m)
  case Nil
  then show ?case by simp
next
  case (Cons e m)
  obtain k' v' where e: "e = (k', v')" by (cases e)
  obtain m' b where r: "map_insert k v m = (m', b)" by (cases "map_insert k v m")
  from Cons.IH r have "fst ` set m' \<subseteq> insert k (fst ` set m)" by simp
  then show ?case by (auto simp: e r)
qed

lemma map_insert_ordered:
  "strictly_ordered m \<Longrightarrow> strictly_ordered (fst (map_insert k v m))"
proof (induction m)
  case Nil
  then show ?case by (simp add: strictly_ordered_def)
next
  case (Cons e m)
  obtain k' v' where e: "e = (k', v')" by (cases e)
  obtain m' b where r: "map_insert k v m = (m', b)" by (cases "map_insert k v m")
  from Cons.prems have above: "\<forall>x \<in> set m. k' < fst x" and ord: "strictly_ordered m"
    by (simp_all add: e strictly_ordered_Cons)
  from Cons.IH [OF ord] r have ord': "strictly_ordered m'" by simp
  from map_insert_keys [of k v m] r have keys: "fst ` set m' \<subseteq> insert k (fst ` set m)" by simp
  consider "k < k'" | "k = k'" | "k' < k" by (cases k k' rule: linorder_cases) auto
  then show ?case
  proof cases
    case 1
    with above ord show ?thesis by (auto simp: e strictly_ordered_Cons)
  next
    case 2
    with above ord show ?thesis by (simp add: e strictly_ordered_Cons)
  next
    case 3
    then have n: "\<not> k < k'" "k \<noteq> k'" by auto
    have "\<forall>x \<in> set m'. k' < fst x"
    proof
      fix x assume "x \<in> set m'"
      with keys have "fst x \<in> insert k (fst ` set m)" by auto
      with 3 above show "k' < fst x" by auto
    qed
    with n ord' show ?thesis by (simp add: e r strictly_ordered_Cons)
  qed
qed

subsection \<open>Duplicate submission\<close>

text \<open>
  Claim C9. Submitting a batch index that is already a key of the raw map
  (\<open>AddBatchData\<close>) or of the prepared map (\<open>PrepareBatchData\<close>) raises the
  duplicate-index \<open>InternalException\<close>, and the state at the throw is the state before
  the call: the entry stored under that index, like every other entry, is unchanged.
\<close>

theorem duplicate_batch_index_raises:
  assumes "strictly_ordered (raw_batches gstate)" and "strictly_ordered (batch_data gstate)"
  shows "(k \<in> fst ` set (raw_batches gstate) \<longrightarrow>
            AddBatchData gstate k c = Raised (DuplicateBatchIndex k) gstate)
       \<and> (k \<in> fst ` set (batch_data gstate) \<longrightarrow>
            PrepareBatchData gstate k c = Raised (DuplicateBatchIndex k) gstate)"
  using assms by (simp add: AddBatchData_def PrepareBatchData_def map_insert_present)

theorem duplicate_batch_index_raises_witness:
  "strictly_ordered (raw_batches g_dup) \<and> strictly_ordered (batch_data g_dup)
   \<and> 5 \<in> fst ` set (raw_batches g_dup)
   \<and> AddBatchData g_dup 5 [[7]] = Raised (DuplicateBatchIndex 5) g_dup
   \<and> raw_batches (outcome_state (AddBatchData g_dup 5 [[7]])) = [(3, [[1, 2]]), (5, [[3]])]
   \<and> 4 \<in> fst ` set (batch_data g_dup)
   \<and> PrepareBatchData g_dup 4 [[7]] = Raised (DuplicateBatchIndex 4) g_dup
   \<and> batch_data (outcome_state (PrepareBatchData g_dup 4 [[7]])) = [(4, Some (PreparedBatchData [[9]]))]"
proof -
  have h: "strictly_ordered (raw_batches g_dup)" "strictly_ordered (batch_data g_dup)"
    by (simp_all add: g_dup_def GetGlobalSinkState_def strictly_ordered_def)
  have m: "5 \<in> fst ` set (raw_batches g_dup)" "4 \<in> fst ` set (batch_data g_dup)"
    by (simp_all add: g_dup_def GetGlobalSinkState_def)
  from duplicate_batch_index_raises [OF h, of 5 "[[7]]"]
       duplicate_batch_index_raises [OF h, of 4 "[[7]]"] m h
  show ?thesis
    by (simp add: g_dup_def GetGlobalSinkState_def)
qed

subsection \<open>The starvation guard\<close>

lemma candidate_rows_takeWhile:
  "candidate_rows min_index m acc =
     acc + word_of_nat (sum_list (map (\<lambda>e. length (Rows (snd e)))
                         (takeWhile (\<lambda>e. fst e < min_index) m)))"
proof (induction m arbitrary: acc)
  case Nil
  then show ?case by simp
next
  case (Cons e m)
  obtain k c where e: "e = (k, c)" by (cases e)
  show ?case
  proof (cases "min_index \<le> k")
    case True
    then have "\<not> k < min_index" by auto
    with True show ?thesis by (simp add: e)
  next
    case False
    then have "k < min_index" by auto
    with False Cons.IH [of "acc + Count c"] show ?thesis
      by (simp add: e Count_def add.assoc)
  qed
qed

lemma takeWhile_le_filter:
  "sum_list (map f (takeWhile P xs)) \<le> sum_list (map (f :: 'a \<Rightarrow> nat) (filter P xs))"
  by (induction xs) auto

lemma candidate_rows_below_size:
  assumes "rows_below min_index m < unat desired"
  shows "candidate_rows min_index m 0 < desired"
proof -
  let ?n = "sum_list (map (\<lambda>e. length (Rows (snd e))) (takeWhile (\<lambda>e. fst e < min_index) m))"
  have "?n \<le> rows_below min_index m"
    unfolding rows_below_def by (rule takeWhile_le_filter)
  with assms have less: "?n < unat desired" by simp
  from less have "unat (word_of_nat ?n :: idx_t) = ?n"
    by (intro le_unat_uoi [of _ desired]) simp
  with less have "(word_of_nat ?n :: idx_t) < desired"
    by (simp add: word_less_nat_alt)
  then show ?thesis by (simp add: candidate_rows_takeWhile)
qed

text \<open>
  Claim C7. In a pass that is not final, when the raw entries with index below the
  watermark hold fewer rows in total than the target batch size, \<open>RepartitionBatches\<close>
  returns the state it was given: the raw map, the prepared map and the sink are
  unchanged.
\<close>

theorem starvation_guard:
  assumes "rows_below min_index (raw_batches gstate) < unat (batch_size gstate)"
  shows "RepartitionBatches vector_size gstate min_index False = Done gstate"
  using candidate_rows_below_size [OF assms] by (simp add: RepartitionBatches_def)

theorem starvation_guard_witness:
  "rows_below 2 (raw_batches g_starved) < unat (batch_size g_starved)
   \<and> RepartitionBatches 2048 g_starved 2 False = Done g_starved"
proof -
  have h: "rows_below 2 (raw_batches g_starved) < unat (batch_size g_starved)"
    by (simp add: g_starved_def GetGlobalSinkState_def rows_below_def Rows_def)
  from h starvation_guard [OF h, of 2048] show ?thesis by simp
qed

subsection \<open>Count conservation\<close>

lemma FlushBatchData_rows_copied [simp]:
  "rows_copied (FlushBatchData gstate min_index) = rows_copied gstate"
proof (induction gstate min_index rule: FlushBatchData.induct)
  case (1 gstate min_index)
  show ?case
    by (subst FlushBatchData.simps) (use 1 in \<open>auto simp: Let_def split: list.splits option.splits\<close>)
qed

lemma RepartitionBatches_rows_copied [simp]:
  "rows_copied (outcome_state (RepartitionBatches vector_size gstate min_index final)) = rows_copied gstate"
  by (simp add: RepartitionBatches_def Let_def split: prod.splits option.splits)

lemma AddBatchData_rows_copied [simp]:
  "rows_copied (outcome_state (AddBatchData gstate k c)) = rows_copied gstate"
  by (simp add: AddBatchData_def split: prod.splits)

lemma PrepareBatchData_rows_copied [simp]:
  "rows_copied (outcome_state (PrepareBatchData gstate k c)) = rows_copied gstate"
  by (simp add: PrepareBatchData_def Let_def split: prod.splits)

lemma NextBatch_counters:
  assumes "NextBatch vector_size gstate state = Done (g', l')"
  shows "rows_copied g' = rows_copied gstate \<and> local_rows_copied l' = local_rows_copied state"
proof (cases "collection state")
  case None
  with assms show ?thesis
    by (auto simp: NextBatch_def InitializeCollection_def)
next
  case (Some c)
  show ?thesis
  proof (cases "batch_size gstate = 0")
    case True
    with Some assms obtain p where p: "PrepareBatchData gstate (batch_index state) c = Done p"
      and g': "g' = FlushBatchData p (partition_min_batch_index (partition_info state))"
      and l': "local_rows_copied l' = local_rows_copied state"
      by (auto simp: NextBatch_def InitializeCollection_def Let_def split: outcome.splits)
    from PrepareBatchData_rows_copied [of gstate "batch_index state" c] p
    have "rows_copied p = rows_copied gstate" by simp
    with g' l' show ?thesis by simp
  next
    case False
    with Some assms obtain a r where a: "AddBatchData gstate (batch_index state) c = Done a"
      and r: "RepartitionBatches vector_size a (partition_min_batch_index (partition_info state)) False = Done r"
      and g': "g' = FlushBatchData r (partition_min_batch_index (partition_info state))"
      and l': "local_rows_copied l' = local_rows_copied state"
      by (auto simp: NextBatch_def InitializeCollection_def Let_def split: outcome.splits)
    from AddBatchData_rows_copied [of gstate "batch_index state" c] a
    have "rows_copied a = rows_copied gstate" by simp
    moreover from RepartitionBatches_rows_copied
        [of vector_size a "partition_min_batch_index (partition_info state)" False] r
    have "rows_copied r = rows_copied a" by simp
    ultimately show ?thesis using g' l' by simp
  qed
qed

lemma Finalize_rows_copied:
  assumes "Finalize vector_size gstate = Done g'"
  shows "rows_copied g' = rows_copied gstate"
proof -
  from assms obtain r where
    r: "(if raw_batches gstate \<noteq> [] then RepartitionBatches vector_size gstate 0x7FFFFFFFFFFFFFFF True
         else Done gstate) = Done r"
    and g': "g' = FlushBatchData r 0x7FFFFFFFFFFFFFFF"
    by (auto simp: Finalize_def Let_def split: outcome.splits)
  have "rows_copied r = rows_copied gstate"
  proof (cases "raw_batches gstate = []")
    case True
    with r show ?thesis by simp
  next
    case False
    with r RepartitionBatches_rows_copied [of vector_size gstate "0x7FFFFFFFFFFFFFFF" True]
    show ?thesis by simp
  qed
  with g' show ?thesis by simp
qed

lemma Sink_local_rows_copied:
  "local_rows_copied (Sink state chunk) = local_rows_copied state + word_of_nat (length chunk)"
  by (simp add: Sink_def InitializeCollection_def chunk_size_def Let_def)

lemma sum_list_same:
  fixes f f' :: "nat \<Rightarrow> idx_t"
  assumes "\<forall>x \<in> set xs. f' x = f x"
  shows "sum_list (map f' xs) = sum_list (map f xs)"
  using assms by (induction xs) auto

lemma sum_list_update_one:
  fixes f f' :: "nat \<Rightarrow> idx_t"
  assumes "distinct xs" and "t \<in> set xs" and "\<forall>x \<in> set xs. x \<noteq> t \<longrightarrow> f' x = f x"
    and "f' t = f t + d"
  shows "sum_list (map f' xs) = sum_list (map f xs) + d"
  using assms
proof (induction xs)
  case Nil
  then show ?case by simp
next
  case (Cons x xs)
  show ?case
  proof (cases "x = t")
    case True
    with Cons.prems have "t \<notin> set xs" by simp
    with Cons.prems have "\<forall>x \<in> set xs. f' x = f x" by auto
    then have "sum_list (map f' xs) = sum_list (map f xs)" by (rule sum_list_same)
    with True Cons.prems(4) show ?thesis by (simp add: algebra_simps)
  next
    case False
    with Cons have "sum_list (map f' xs) = sum_list (map f xs) + d" by auto
    with False Cons.prems show ?thesis by (simp add: algebra_simps)
  qed
qed

lemma run_counters:
  assumes "run vector_size evs (g, ls) = Done (g', ls')"
    and "scheduled live evs" and "distinct live" and "\<forall>t \<in> set live. t < length ls"
  shows "rows_copied g' =
           rows_copied g + sum_list (map (\<lambda>t. local_rows_copied (ls ! t)) live)
             + word_of_nat (sunk_rows evs)"
  using assms
proof (induction evs arbitrary: g ls live)
  case Nil
  then show ?case by simp
next
  case (Cons ev evs)
  show ?case
  proof (cases ev)
    case (SinkEvent t chunk)
    from Cons.prems(2) have t: "t \<in> set live" and sch: "scheduled live evs"
      by (simp_all add: SinkEvent)
    with Cons.prems(4) have lt: "t < length ls" by simp
    let ?ls = "ls[t := Sink (ls ! t) chunk]"
    from Cons.prems(1) lt have r: "run vector_size evs (g, ?ls) = Done (g', ls')"
      by (simp add: SinkEvent)
    from Cons.prems(4) have len: "\<forall>t \<in> set live. t < length ?ls" by simp
    have "sum_list (map (\<lambda>u. local_rows_copied (?ls ! u)) live) =
          sum_list (map (\<lambda>u. local_rows_copied (ls ! u)) live) + word_of_nat (length chunk)"
      by (rule sum_list_update_one [OF Cons.prems(3) t])
         (use lt in \<open>auto simp: Sink_local_rows_copied\<close>)
    with Cons.IH [OF r sch Cons.prems(3) len] show ?thesis
      by (simp add: SinkEvent algebra_simps)
  next
    case (NextBatchEvent t next_index min_index)
    from Cons.prems(2) have t: "t \<in> set live" and sch: "scheduled live evs"
      by (simp_all add: NextBatchEvent)
    with Cons.prems(4) have lt: "t < length ls" by simp
    let ?l = "(ls ! t)\<lparr>partition_info := \<lparr>partition_batch_index = next_index,
                                              partition_min_batch_index = min_index\<rparr>\<rparr>"
    from Cons.prems(1) lt obtain g1 l1 where nb: "NextBatch vector_size g ?l = Done (g1, l1)"
      and r: "run vector_size evs (g1, ls[t := l1]) = Done (g', ls')"
      by (auto simp: NextBatchEvent split: outcome.splits)
    from NextBatch_counters [OF nb]
    have c: "rows_copied g1 = rows_copied g" "local_rows_copied l1 = local_rows_copied (ls ! t)"
      by simp_all
    from Cons.prems(4) have len: "\<forall>u \<in> set live. u < length (ls[t := l1])" by simp
    have "sum_list (map (\<lambda>u. local_rows_copied (ls[t := l1] ! u)) live) =
          sum_list (map (\<lambda>u. local_rows_copied (ls ! u)) live)"
      by (rule sum_list_same) (use lt c in \<open>auto simp: nth_list_update\<close>)
    with Cons.IH [OF r sch Cons.prems(3) len] c show ?thesis
      by (simp add: NextBatchEvent)
  next
    case (CombineEvent t)
    from Cons.prems(2) have t: "t \<in> set live" and sch: "scheduled (remove1 t live) evs"
      by (simp_all add: CombineEvent)
    with Cons.prems(4) have lt: "t < length ls" by simp
    from Cons.prems(1) lt have r: "run vector_size evs (Combine g (ls ! t), ls) = Done (g', ls')"
      by (simp add: CombineEvent)
    from Cons.prems(3) have d: "distinct (remove1 t live)" by simp
    from Cons.prems(4) have len: "\<forall>u \<in> set (remove1 t live). u < length ls"
      by (auto dest: notin_set_remove1)
    have "sum_list (map (\<lambda>u. local_rows_copied (ls ! u)) live) =
          local_rows_copied (ls ! t) + sum_list (map (\<lambda>u. local_rows_copied (ls ! u)) (remove1 t live))"
      by (rule sum_list_map_remove1 [OF t])
    with Cons.IH [OF r sch d len] show ?thesis
      by (simp add: CombineEvent Combine_def algebra_simps)
  next
    case FinalizeEvent
    from Cons.prems(2) have sch: "scheduled live evs" by (simp add: FinalizeEvent)
    from Cons.prems(1) obtain g1 where f: "Finalize vector_size g = Done g1"
      and r: "run vector_size evs (g1, ls) = Done (g', ls')"
      by (auto simp: FinalizeEvent split: outcome.splits)
    from Cons.IH [OF r sch Cons.prems(3) Cons.prems(4)] Finalize_rows_copied [OF f]
    show ?thesis by (simp add: FinalizeEvent)
  qed
qed

lemma sint_word_of_nat:
  assumes "n < 2 ^ 63"
  shows "sint (word_of_nat n :: idx_t) = int n"
proof -
  have "sint (word_of_nat n :: idx_t) = signed_take_bit 63 (int n)"
    by (simp add: signed_of_nat)
  also have "\<dots> = int n"
  proof (rule signed_take_bit_int_eq_self)
    show "- (2 ^ 63) \<le> int n" by (rule order_trans [of _ 0]) simp_all
    from assms show "int n < 2 ^ 63" by (metis of_nat_less_iff of_nat_numeral of_nat_power)
  qed
  finally show ?thesis .
qed

text \<open>
  Claim C8. In every execution that ends normally and in which every local state is
  combined once, in any order and in any interleaving with the \<open>Sink\<close>, \<open>NextBatch\<close>
  and \<open>Finalize\<close> calls, the counter of the global state is the number of rows passed
  to \<open>Sink\<close> (as an \<open>idx_t\<close>, so modulo \<open>2 ^ 64\<close>), and below \<open>2 ^ 63\<close> rows the
  \<open>BIGINT\<close> that \<open>GetData\<close> returns is that number.
\<close>

theorem count_conservation:
  assumes "run vector_size evs (initial_state desired_batch_size producers) = Done (g, ls)"
    and "scheduled [0..<producers] evs"
  shows "rows_copied g = word_of_nat (sunk_rows evs)
       \<and> (sunk_rows evs < 2 ^ 63 \<longrightarrow> GetData g = int (sunk_rows evs))"
proof -
  let ?ls = "replicate producers (GetLocalSinkState \<lparr>partition_batch_index = 0, partition_min_batch_index = 0\<rparr>) :: 'a BatchCopyToLocalState list"
  have zero: "sum_list (map (\<lambda>t. local_rows_copied (?ls ! t)) [0..<producers]) = 0"
    using sum_list_same [of "[0..<producers]" "\<lambda>t. local_rows_copied (?ls ! t)" "\<lambda>t. 0"]
    by (simp add: GetLocalSinkState_def)
  from assms(1) have r: "run vector_size evs (GetGlobalSinkState desired_batch_size, ?ls) = Done (g, ls)"
    by (simp add: initial_state_def)
  have "rows_copied g = rows_copied (GetGlobalSinkState desired_batch_size :: 'a BatchCopyToGlobalState)
          + sum_list (map (\<lambda>t. local_rows_copied (?ls ! t)) [0..<producers])
          + word_of_nat (sunk_rows evs)"
    by (rule run_counters [OF r assms(2)]) simp_all
  with zero have eq: "rows_copied g = word_of_nat (sunk_rows evs)"
    by (simp add: GetGlobalSinkState_def)
  then show ?thesis by (simp add: GetData_def sint_word_of_nat)
qed

theorem count_conservation_witness:
  "scheduled [0..<2] schedule_counted
   \<and> sunk_rows schedule_counted = 4
   \<and> run 2 schedule_counted (initial_state 5 2) =
       Done (outcome_state (run 2 schedule_counted (initial_state 5 2)))
   \<and> GetData (fst (outcome_state (run 2 schedule_counted (initial_state 5 2)))) = 4"
proof -
  let ?s = "outcome_state (run 2 schedule_counted (initial_state 5 2))"
  have r: "run 2 schedule_counted (initial_state 5 2) = Done (fst ?s, snd ?s)"
    by code_simp
  have s: "scheduled [0..<2] schedule_counted"
    by code_simp
  have n: "sunk_rows schedule_counted = 4"
    by (simp add: schedule_counted_def)
  from count_conservation [OF r s] r s n show ?thesis by simp
qed

subsection \<open>The flush flag\<close>

lemma FlushBatchData_sets_flag:
  "active_flush (FlushBatchData gstate min_index)"
proof (induction gstate min_index rule: FlushBatchData.induct)
  case (1 gstate min_index)
  show ?case
    by (subst FlushBatchData.simps) (use 1 in \<open>auto simp: Let_def split: list.splits option.splits\<close>)
qed

lemma FlushBatchData_flagged:
  "active_flush gstate \<Longrightarrow> FlushBatchData gstate min_index = gstate"
  by (subst FlushBatchData.simps) simp

text \<open>
  Claim C4 says that \<open>active_flush\<close> is false again whenever \<open>FlushBatchData\<close> returns,
  so that no later flush is skipped because of a stale flag. The code does the opposite.
  Each \<open>break\<close> leaves the loop with the flag set, and the loop is only left through a
  \<open>break\<close> or with the flag found set: every call returns with \<open>active_flush\<close> true,
  and every later call returns at once. After a first call on the empty state, batch 0 is
  prepared, is ready and is below watermark 1, and the next call flushes nothing.
\<close>

theorem flush_flag_left_set:
  "active_flush (FlushBatchData gstate min_index)
   \<and> FlushBatchData (FlushBatchData gstate min_index) later_min_index = FlushBatchData gstate min_index
   \<and> active_flush g_after_idle_flush
   \<and> global_state g_after_idle_flush = []
   \<and> PrepareBatchData g_after_idle_flush 0 [[7]] =
        Done (g_after_idle_flush\<lparr>batch_data := [(0, Some (PreparedBatchData [[7]]))]\<rparr>)
   \<and> FlushBatchData (g_after_idle_flush\<lparr>batch_data := [(0, Some (PreparedBatchData [[7]]))]\<rparr>) 1 =
        g_after_idle_flush\<lparr>batch_data := [(0, Some (PreparedBatchData [[7]]))]\<rparr>"
proof -
  have idle: "g_after_idle_flush = (GetGlobalSinkState 0)\<lparr>active_flush := True\<rparr>"
    by (simp add: g_after_idle_flush_def FlushBatchData.simps GetGlobalSinkState_def)
  have flag: "active_flush g_after_idle_flush"
    by (simp add: idle)
  have prep: "PrepareBatchData g_after_idle_flush 0 [[7]] =
        Done (g_after_idle_flush\<lparr>batch_data := [(0, Some (PreparedBatchData [[7]]))]\<rparr>)"
    by (simp add: idle PrepareBatchData_def prepare_batch_def GetGlobalSinkState_def)
  have skip: "FlushBatchData (g_after_idle_flush\<lparr>batch_data := [(0, Some (PreparedBatchData [[7]]))]\<rparr>) 1 =
        g_after_idle_flush\<lparr>batch_data := [(0, Some (PreparedBatchData [[7]]))]\<rparr>"
    by (rule FlushBatchData_flagged) (simp add: flag)
  have sink: "global_state g_after_idle_flush = []"
    by (simp add: idle GetGlobalSinkState_def)
  from FlushBatchData_sets_flag [of gstate min_index]
       FlushBatchData_flagged [OF FlushBatchData_sets_flag, of gstate min_index later_min_index]
       flag prep skip sink
  show ?thesis by simp
qed

text \<open>
  Claim C1 says that the rows passed to \<open>flush_batch\<close> are the appended rows in batch
  order without gaps, whatever the completion order. With no target batch size and
  batch 1 completed before batch 0, the first flush attempt stops at the watermark and
  leaves the flag set; the execution ends normally, three rows are counted, both batches
  stay in the prepared map and no row is ever passed to \<open>flush_batch\<close>.
\<close>

theorem out_of_order_completion_writes_nothing:
  "run 2048 schedule_out_of_order (initial_state 0 2) =
     Done (outcome_state (run 2048 schedule_out_of_order (initial_state 0 2)))
   \<and> flushed_rows (global_state (fst (outcome_state (run 2048 schedule_out_of_order (initial_state 0 2))))) = []
   \<and> batch_data (fst (outcome_state (run 2048 schedule_out_of_order (initial_state 0 2)))) =
       [(0, Some (PreparedBatchData [[10, 11]])), (1, Some (PreparedBatchData [[12]]))]
   \<and> GetData (fst (outcome_state (run 2048 schedule_out_of_order (initial_state 0 2)))) = 3"
  by code_simp

text \<open>
  Claim C2 says that after \<open>Finalize\<close> both maps are empty and every row has been
  flushed once. One producer, two batches, no target batch size: batch 0 is flushed by the
  first flush attempt, which then leaves the flag set; batch 1 is prepared but never
  flushed, and is still in the prepared map when \<open>Finalize\<close> has returned.
\<close>

theorem finalize_leaves_prepared_batch:
  "run 2048 schedule_two_batches (initial_state 0 1) =
     Done (outcome_state (run 2048 schedule_two_batches (initial_state 0 1)))
   \<and> raw_batches (fst (outcome_state (run 2048 schedule_two_batches (initial_state 0 1)))) = []
   \<and> batch_data (fst (outcome_state (run 2048 schedule_two_batches (initial_state 0 1)))) =
       [(1, Some (PreparedBatchData [[12]]))]
   \<and> flushed_rows (global_state (fst (outcome_state (run 2048 schedule_two_batches (initial_state 0 1))))) =
       [10, 11]"
  by code_simp

subsection \<open>What a repartition pass does with the rows\<close>

lemma gather_split:
  "gather min_index m mx cs =
     (if takeWhile (\<lambda>e. fst e < min_index) m = [] then mx
      else Some (fst (last (takeWhile (\<lambda>e. fst e < min_index) m))),
      cs @ map snd (takeWhile (\<lambda>e. fst e < min_index) m),
      dropWhile (\<lambda>e. fst e < min_index) m)"
proof (induction m arbitrary: mx cs)
  case Nil
  then show ?case by simp
next
  case (Cons e m)
  obtain k c where e: "e = (k, c)" by (cases e)
  show ?case
  proof (cases "min_index \<le> k")
    case True
    then have "\<not> k < min_index" by auto
    with True show ?thesis by (simp add: e)
  next
    case False
    then have "k < min_index" by auto
    with False Cons.IH [of "Some k" "cs @ [c]"] show ?thesis by (simp add: e)
  qed
qed

lemma map_assign_front:
  "m = [] \<or> k < fst (hd m) \<Longrightarrow> map_assign k v m = (k, v) # m"
  by (cases m) auto

lemma last_takeWhile_below_hd_dropWhile:
  fixes min_index :: idx_t
  assumes "takeWhile (\<lambda>e. fst e < min_index) m \<noteq> []"
  shows "dropWhile (\<lambda>e. fst e < min_index) m = []
       \<or> fst (last (takeWhile (\<lambda>e. fst e < min_index) m)) < fst (hd (dropWhile (\<lambda>e. fst e < min_index) m))"
proof (cases "dropWhile (\<lambda>e. fst e < min_index) m = []")
  case True
  then show ?thesis by simp
next
  case False
  let ?P = "\<lambda>e. fst e < min_index"
  from assms have "last (takeWhile ?P m) \<in> set (takeWhile ?P m)" by simp
  then have a: "fst (last (takeWhile ?P m)) < min_index" by (auto dest: set_takeWhileD)
  from False have "\<not> ?P (hd (dropWhile ?P m))" by (rule hd_dropWhile)
  then have "min_index \<le> fst (hd (dropWhile ?P m))" by auto
  with a show ?thesis by auto
qed

lemma Rows_Chunks: "concat (Chunks c) = Rows c"
  by (simp add: Chunks_def Rows_def)

lemma Rows_Append: "Rows (Append c chunk) = Rows c @ chunk"
  by (simp add: Append_def Rows_def)

lemma Rows_empty: "Rows [] = []"
  by (simp add: Rows_def)

lemma append_chunks_rows:
  "append_chunks desired chunks result current = (result', current') \<Longrightarrow>
     (\<exists>new. result' = result @ new) \<and>
     concat (map Rows result') @ Rows current' =
       concat (map Rows result) @ Rows current @ concat chunks"
proof (induction chunks arbitrary: result current)
  case Nil
  then show ?case by simp
next
  case (Cons chunk chunks)
  show ?case
  proof (cases "Count (Append current chunk) < desired")
    case True
    with Cons.prems have "append_chunks desired chunks result (Append current chunk) = (result', current')"
      by simp
    from Cons.IH [OF this] show ?thesis by (simp add: Rows_Append)
  next
    case False
    with Cons.prems
    have "append_chunks desired chunks (result @ [Append current chunk]) [] = (result', current')"
      by simp
    from Cons.IH [OF this] show ?thesis by (auto simp: Rows_Append Rows_empty)
  qed
qed

lemma repartition_rows:
  "repartition vector_size desired collections result current = (result', current') \<Longrightarrow>
     (\<exists>new. result' = result @ new) \<and>
     concat (map Rows result') @ current_rows current' =
       concat (map Rows result) @ current_rows current @ concat (map Rows collections)"
proof (induction vector_size desired collections result current rule: repartition.induct)
  case (1 vector_size desired result current)
  then show ?case by simp
next
  case (2 vector_size desired c collections result)
  show ?case
  proof (cases "CorrectSizeForBatch vector_size (Count c) desired")
    case True
    with "2.prems" have "repartition vector_size desired collections (result @ [c]) None = (result', current')"
      by simp
    from "2.IH"(1) [OF True this] show ?thesis by auto
  next
    case False
    show ?thesis
    proof (cases "Count c < desired")
      case True
      with False "2.prems" have "repartition vector_size desired collections result (Some c) = (result', current')"
        by simp
      from "2.IH"(2) [OF False True this] show ?thesis by simp
    next
      case large: False
      obtain r cur where ac: "append_chunks desired (Chunks c) result [] = (r, cur)"
        by (cases "append_chunks desired (Chunks c) result []")
      with False large "2.prems" have "repartition vector_size desired collections r (Some cur) = (result', current')"
        by simp
      from "2.IH"(3) [OF False large ac [symmetric] this] append_chunks_rows [OF ac]
      show ?thesis by (auto simp: Rows_Chunks Rows_empty)
    qed
  qed
next
  case (3 vector_size desired c collections result current_collection)
  obtain r cur where ac: "append_chunks desired (Chunks c) result current_collection = (r, cur)"
    by (cases "append_chunks desired (Chunks c) result current_collection")
  with "3.prems" have "repartition vector_size desired collections r (Some cur) = (result', current')"
    by simp
  from "3.IH" [OF ac [symmetric] this] append_chunks_rows [OF ac]
  show ?case by (auto simp: Rows_Chunks)
qed

lemma prepare_and_flush_append:
  "prepare_and_flush result gs = gs @ map (\<lambda>c. (Lock, prepare_batch c)) result"
  by (induction result arbitrary: gs) (simp_all add: flush_batch_def)

lemma RepartitionBatches_unfold:
  "RepartitionBatches vector_size gstate min_index final =
     (let drained = takeWhile (\<lambda>e. fst e < min_index) (raw_batches gstate);
          remaining = dropWhile (\<lambda>e. fst e < min_index) (raw_batches gstate);
          gathered = gstate\<lparr>raw_batches := remaining\<rparr>;
          emit = (\<lambda>result. prepare_and_flush result (global_state gstate))
      in
      if raw_batches gstate = [] then Done gstate
      else if \<not> final \<and> candidate_rows min_index (raw_batches gstate) 0 < batch_size gstate
      then Done gstate
      else
        (case repartition vector_size (batch_size gstate) (map snd drained) [] None of
           (result, None) \<Rightarrow> Raised NullPointerDereference gathered
         | (result, Some current) \<Rightarrow>
             if Count current > 0 then
               if final \<or> CorrectSizeForBatch vector_size (Count current) (batch_size gstate)
               then Done (gathered\<lparr>global_state := emit (result @ [current])\<rparr>)
               else if drained = [] then Raised UninitializedRead gathered
               else Done (gathered\<lparr>raw_batches := map_assign (fst (last drained)) current remaining,
                                     global_state := emit result\<rparr>)
             else Done (gathered\<lparr>global_state := emit result\<rparr>)))"
  by (simp add: RepartitionBatches_def gather_split Let_def split: prod.splits option.splits)

lemma raw_rows_split:
  "raw_rows m = concat (map Rows (map snd (takeWhile P m))) @ raw_rows (dropWhile P m)"
proof -
  have "raw_rows (takeWhile P m @ dropWhile P m) =
        raw_rows (takeWhile P m) @ raw_rows (dropWhile P m)"
    unfolding raw_rows_def by (simp only: map_append concat_append)
  moreover have "raw_rows (takeWhile P m) = concat (map Rows (map snd (takeWhile P m)))"
    unfolding raw_rows_def by (simp add: comp_def)
  ultimately show ?thesis by simp
qed

lemma Count_zero_empty:
  assumes "length (Rows c) < 2 ^ 64" and "\<not> Count c > 0"
  shows "Rows c = []"
proof -
  from assms(2) have "Count c = 0" by (simp add: word_greater_zero_iff)
  then have "unat (word_of_nat (length (Rows c)) :: idx_t) = 0" by (simp add: Count_def)
  moreover from assms(1) have "unat (word_of_nat (length (Rows c)) :: idx_t) = length (Rows c)"
    by (simp add: unat_of_nat)
  ultimately show ?thesis by simp
qed

subsection \<open>The size test on 64-bit values\<close>

lemma sint_word_of_int_small:
  assumes "- (2 ^ 63) \<le> i" and "i < 2 ^ 63"
  shows "sint (word_of_int i :: idx_t) = i"
proof -
  have "sint (word_of_int i :: idx_t) = signed_take_bit 63 i"
    by (simp add: signed_of_int)
  also from assms have "\<dots> = i" by (rule signed_take_bit_int_eq_self)
  finally show ?thesis .
qed

lemma uint_word_of_int_small:
  assumes "0 \<le> i" and "i < 2 ^ 64"
  shows "uint (word_of_int i :: idx_t) = i"
  using assms by (simp add: uint_word_of_int take_bit_int_eq_self)

lemma AbsValue_word_of_int:
  assumes "- (2 ^ 63) < i" and "i < 2 ^ 63"
  shows "uint (AbsValue (word_of_int i)) = \<bar>i\<bar>"
proof -
  from assms have s: "sint (word_of_int i :: idx_t) = i"
    by (intro sint_word_of_int_small) simp_all
  show ?thesis
  proof (cases "i < 0")
    case True
    with s have neg: "(word_of_int i :: idx_t) <s 0" by (simp add: word_sless_alt)
    have "- (word_of_int i :: idx_t) = word_of_int (- i)" by simp
    moreover from True assms have "uint (word_of_int (- i) :: idx_t) = - i"
      by (intro uint_word_of_int_small) simp_all
    ultimately show ?thesis using neg True by (simp add: AbsValue_def)
  next
    case False
    with s have pos: "\<not> (word_of_int i :: idx_t) <s 0" by (simp add: word_sless_alt)
    from False assms have "uint (word_of_int i :: idx_t) = i"
      by (intro uint_word_of_int_small) simp_all
    with pos False show ?thesis by (simp add: AbsValue_def)
  qed
qed

lemma int_diff_bounds:
  fixes n b :: nat
  assumes "n < 2 ^ 63" and "b < 2 ^ 63"
  shows "- (2 ^ 63) < int n - int b" and "int n - int b < 2 ^ 63"
  using assms by simp_all

lemma CorrectSizeForBatch_iff:
  assumes "length (Rows c) < 2 ^ 63" and "unat desired < 2 ^ 63"
  shows "CorrectSizeForBatch vector_size (Count c) desired \<longleftrightarrow> within_tolerance vector_size desired c"
proof -
  let ?i = "int (length (Rows c)) - int (unat desired)"
  have d: "desired = word_of_int (int (unat desired))" by simp
  have "Count c - desired = word_of_int (int (length (Rows c))) - word_of_int (int (unat desired))"
    by (simp add: Count_def)
  then have diff: "Count c - desired = word_of_int ?i" by simp
  have "- (2 ^ 63) < ?i" "?i < 2 ^ 63"
    by (rule int_diff_bounds [OF assms])+
  then have "uint (AbsValue (word_of_int ?i)) = \<bar>?i\<bar>" by (rule AbsValue_word_of_int)
  with diff show ?thesis
    by (simp add: CorrectSizeForBatch_def within_tolerance_def word_less_def)
qed

lemma unat_Count:
  "length (Rows c) < 2 ^ 63 \<Longrightarrow> unat (Count c) = length (Rows c)"
  by (simp add: Count_def unat_of_nat)

subsection \<open>The ways a pass returns\<close>

text \<open>
  A pass that returns has changed nothing, or has emitted the result and the
  accumulator, or has emitted the result and put the accumulator back, or has emitted the
  result and found the accumulator empty.
\<close>

lemma RepartitionBatches_Done_cases:
  fixes gstate :: "'r BatchCopyToGlobalState"
  assumes ret: "RepartitionBatches vector_size gstate min_index final = Done g'"
    and fits: "length (raw_rows (raw_batches gstate)) < 2 ^ 64"
  obtains
    (cancelled) "g' = gstate"
      "raw_batches gstate = [] \<or>
       (\<not> final \<and> candidate_rows min_index (raw_batches gstate) 0 < batch_size gstate)"
  | (emitted) result current where
      "repartition vector_size (batch_size gstate)
         (map snd (takeWhile (\<lambda>e. fst e < min_index) (raw_batches gstate))) [] None = (result, Some current)"
      "g' = gstate\<lparr>raw_batches := dropWhile (\<lambda>e. fst e < min_index) (raw_batches gstate),
                    global_state := global_state gstate @ map (\<lambda>c. (Lock, prepare_batch c)) (result @ [current])\<rparr>"
      "final \<or> CorrectSizeForBatch vector_size (Count current) (batch_size gstate)"
  | (kept) result current where
      "repartition vector_size (batch_size gstate)
         (map snd (takeWhile (\<lambda>e. fst e < min_index) (raw_batches gstate))) [] None = (result, Some current)"
      "g' = gstate\<lparr>raw_batches := (fst (last (takeWhile (\<lambda>e. fst e < min_index) (raw_batches gstate))), current)
                                     # dropWhile (\<lambda>e. fst e < min_index) (raw_batches gstate),
                    global_state := global_state gstate @ map (\<lambda>c. (Lock, prepare_batch c)) result\<rparr>"
      "takeWhile (\<lambda>e. fst e < min_index) (raw_batches gstate) \<noteq> []"
      "Count current > 0" "\<not> final"
      "\<not> CorrectSizeForBatch vector_size (Count current) (batch_size gstate)"
  | (exhausted) result current where
      "repartition vector_size (batch_size gstate)
         (map snd (takeWhile (\<lambda>e. fst e < min_index) (raw_batches gstate))) [] None = (result, Some current)"
      "g' = gstate\<lparr>raw_batches := dropWhile (\<lambda>e. fst e < min_index) (raw_batches gstate),
                    global_state := global_state gstate @ map (\<lambda>c. (Lock, prepare_batch c)) result\<rparr>"
      "Rows current = []"
proof -
  let ?P = "\<lambda>e. fst e < min_index"
  let ?drained = "takeWhile ?P (raw_batches gstate)"
  let ?remaining = "dropWhile ?P (raw_batches gstate)"
  let ?stop = "raw_batches gstate = [] \<or>
               (\<not> final \<and> candidate_rows min_index (raw_batches gstate) 0 < batch_size gstate)"
  show ?thesis
  proof (cases ?stop)
    case True
    with ret have "g' = gstate" by (auto simp: RepartitionBatches_def split: if_splits)
    from this True show ?thesis by (rule cancelled)
  next
    case False
    obtain result cur where rp:
      "repartition vector_size (batch_size gstate) (map snd ?drained) [] None = (result, cur)"
      by (cases "repartition vector_size (batch_size gstate) (map snd ?drained) [] None")
    from ret False rp obtain current where cur: "cur = Some current"
      by (cases cur) (auto simp: RepartitionBatches_unfold Let_def)
    note rp' = rp [unfolded cur]
    from repartition_rows [OF rp']
    have rows: "concat (map Rows result) @ Rows current = concat (map Rows (map snd ?drained))"
      by simp
    have "length (Rows current) \<le> length (raw_rows (raw_batches gstate))"
      by (subst raw_rows_split [of _ ?P], subst rows [symmetric]) simp
    with fits have small: "length (Rows current) < 2 ^ 64" by simp
    consider (a) "Count current > 0" "final \<or> CorrectSizeForBatch vector_size (Count current) (batch_size gstate)"
      | (b) "Count current > 0" "\<not> (final \<or> CorrectSizeForBatch vector_size (Count current) (batch_size gstate))"
      | (c) "\<not> Count current > 0"
      by blast
    then show ?thesis
    proof cases
      case a
      with ret False rp'
      have g1: "g' = gstate\<lparr>raw_batches := ?remaining,
                  global_state := global_state gstate @ map (\<lambda>c. (Lock, prepare_batch c)) (result @ [current])\<rparr>"
        by (auto simp: RepartitionBatches_unfold Let_def prepare_and_flush_append)
      from rp' g1 a(2) show ?thesis by (rule emitted)
    next
      case b
      with ret False rp' have ne: "?drained \<noteq> []"
        by (auto simp: RepartitionBatches_unfold Let_def split: if_splits)
      from last_takeWhile_below_hd_dropWhile [OF ne]
      have "map_assign (fst (last ?drained)) current ?remaining = (fst (last ?drained), current) # ?remaining"
        by (rule map_assign_front)
      with b ne ret False rp'
      have g1: "g' = gstate\<lparr>raw_batches := (fst (last ?drained), current) # ?remaining,
                  global_state := global_state gstate @ map (\<lambda>c. (Lock, prepare_batch c)) result\<rparr>"
        by (auto simp: RepartitionBatches_unfold Let_def prepare_and_flush_append)
      from b(2) have nf: "\<not> final"
        and nc: "\<not> CorrectSizeForBatch vector_size (Count current) (batch_size gstate)"
        by simp_all
      from rp' g1 ne b(1) nf nc show ?thesis by (rule kept)
    next
      case c
      with ret False rp'
      have g1: "g' = gstate\<lparr>raw_batches := ?remaining,
                  global_state := global_state gstate @ map (\<lambda>c. (Lock, prepare_batch c)) result\<rparr>"
        by (auto simp: RepartitionBatches_unfold Let_def prepare_and_flush_append)
      from rp' g1 Count_zero_empty [OF small c] show ?thesis by (rule exhausted)
    qed
  qed
qed

subsection \<open>Where the output of a pass goes\<close>

text \<open>
  Claim C3, as amended. A repartition pass hands every collection it emits to
  \<open>prepare_batch\<close> and passes the prepared form to \<open>flush_batch\<close> at once, in emission
  order, inside \<open>RepartitionBatches\<close> and under \<open>gstate.lock\<close>. It leaves the prepared
  map as it was. When the pass returns, the rows of the raw map it started from are the
  rows it has written followed by the rows the raw map still holds: nothing of its output
  waits in the prepared map for \<open>FlushBatchData\<close>.
\<close>

theorem repartition_writes_directly:
  assumes "RepartitionBatches vector_size gstate min_index final = Done g'"
    and "length (raw_rows (raw_batches gstate)) < 2 ^ 64"
  shows "batch_data g' = batch_data gstate \<and>
         (\<exists>result. global_state g' = global_state gstate @ map (\<lambda>c. (Lock, prepare_batch c)) result
            \<and> concat (map Rows result) @ raw_rows (raw_batches g') = raw_rows (raw_batches gstate))"
  using assms
proof (cases rule: RepartitionBatches_Done_cases)
  case cancelled
  then have "global_state g' = global_state gstate @ map (\<lambda>c. (Lock, prepare_batch c)) []
      \<and> concat (map Rows []) @ raw_rows (raw_batches g') = raw_rows (raw_batches gstate)" by simp
  with cancelled show ?thesis by blast
next
  case (emitted result current)
  from repartition_rows [OF emitted(1)] raw_rows_split [of "raw_batches gstate" "\<lambda>e. fst e < min_index"]
  have "concat (map Rows (result @ [current])) @ raw_rows (raw_batches g') = raw_rows (raw_batches gstate)"
    by (simp add: emitted(2))
  with emitted(2) show ?thesis by (intro conjI exI [of _ "result @ [current]"]) simp_all
next
  case (kept result current)
  from repartition_rows [OF kept(1)] raw_rows_split [of "raw_batches gstate" "\<lambda>e. fst e < min_index"]
  have "concat (map Rows result) @ raw_rows (raw_batches g') = raw_rows (raw_batches gstate)"
    by (simp add: kept(2) raw_rows_def)
  with kept(2) show ?thesis by (intro conjI exI [of _ result]) simp_all
next
  case (exhausted result current)
  from repartition_rows [OF exhausted(1)] raw_rows_split [of "raw_batches gstate" "\<lambda>e. fst e < min_index"]
  have "concat (map Rows result) @ raw_rows (raw_batches g') = raw_rows (raw_batches gstate)"
    by (simp add: exhausted(2,3))
  with exhausted(2) show ?thesis by (intro conjI exI [of _ result]) simp_all
qed

theorem repartition_writes_directly_witness:
  "RepartitionBatches 2 g_pass 3 True =
     Done (g_pass\<lparr>raw_batches := [],
                  global_state := [(Lock, PreparedBatchData [[1, 2], [3, 4]]), (Lock, PreparedBatchData [[5]])]\<rparr>)
   \<and> length (raw_rows (raw_batches g_pass)) < 2 ^ 64
   \<and> batch_data (g_pass\<lparr>raw_batches := [],
                  global_state := [(Lock, PreparedBatchData [[1, 2], [3, 4]]), (Lock, PreparedBatchData [[5]])]\<rparr>)
       = batch_data g_pass
   \<and> (\<exists>result. [(Lock, PreparedBatchData [[1, 2], [3, 4]]), (Lock, PreparedBatchData [[5]])] =
          global_state g_pass @ map (\<lambda>c. (Lock, prepare_batch c)) result
        \<and> concat (map Rows result) @ raw_rows [] = raw_rows (raw_batches g_pass))"
proof -
  have r: "RepartitionBatches 2 g_pass 3 True =
     Done (g_pass\<lparr>raw_batches := [],
                  global_state := [(Lock, PreparedBatchData [[1, 2], [3, 4]]), (Lock, PreparedBatchData [[5]])]\<rparr>)"
    by code_simp
  have f: "length (raw_rows (raw_batches g_pass)) < 2 ^ 64"
    by (simp add: g_pass_def GetGlobalSinkState_def raw_rows_def Rows_def)
  from repartition_writes_directly [OF r f] r f show ?thesis by simp
qed

text \<open>
  Claim C3 as stated fails: the pass below emits one collection of four rows; on return
  it has been written under \<open>gstate.lock\<close>, and the prepared map is still empty.
\<close>

theorem repartition_output_bypasses_prepared_map:
  "RepartitionBatches 2 g_pass 2 False =
     Done (g_pass\<lparr>raw_batches := [(1, [[5]])],
                  global_state := [(Lock, PreparedBatchData [[1, 2], [3, 4]])]\<rparr>)
   \<and> batch_data (outcome_state (RepartitionBatches 2 g_pass 2 False)) = []
   \<and> global_state g_pass = []
   \<and> global_state (outcome_state (RepartitionBatches 2 g_pass 2 False)) =
       [(Lock, prepare_batch [[1, 2], [3, 4]])]"
  by code_simp

subsection \<open>The sizes a pass emits\<close>

lemma tolerance_nat:
  fixes m b v :: nat
  assumes "b \<le> m" and "m < b + v"
  shows "\<bar>int m - int b\<bar> < int v"
  using assms by linarith

lemma emitted_within_tolerance:
  assumes "length (Rows current) < unat desired" and "length chunk \<le> unat vector_size"
    and "unat desired \<le> length (Rows (Append current chunk))"
  shows "within_tolerance vector_size desired (Append current chunk)"
  unfolding within_tolerance_def
  by (rule tolerance_nat) (use assms in \<open>simp_all add: Rows_Append\<close>)

lemma Count_less_iff:
  assumes "length (Rows c) < 2 ^ 63"
  shows "Count c < desired \<longleftrightarrow> length (Rows c) < unat desired"
  using assms by (simp add: word_less_nat_alt unat_Count)

lemma append_chunks_sizes:
  assumes "0 < unat desired"
    and "\<forall>chunk \<in> set chunks. length chunk \<le> unat vector_size"
    and "length (Rows current) < unat desired"
    and "length (Rows current) + length (concat chunks) < 2 ^ 63"
    and "append_chunks desired chunks result current = (result', current')"
  shows "(\<exists>new. result' = result @ new \<and> (\<forall>c \<in> set new. within_tolerance vector_size desired c))
       \<and> length (Rows current') < unat desired"
  using assms(2-)
proof (induction chunks arbitrary: result current)
  case Nil
  then show ?case by simp
next
  case (Cons chunk chunks)
  let ?appended = "Append current chunk"
  from Cons.prems(3) have small: "length (Rows ?appended) < 2 ^ 63"
    by (simp add: Rows_Append)
  from Cons.prems(1) have bounded: "\<forall>chunk \<in> set chunks. length chunk \<le> unat vector_size"
    and chunk: "length chunk \<le> unat vector_size" by simp_all
  show ?case
  proof (cases "Count ?appended < desired")
    case True
    with Cons.prems(4) have ac: "append_chunks desired chunks result ?appended = (result', current')"
      by simp
    from True small have less: "length (Rows ?appended) < unat desired"
      by (simp add: Count_less_iff)
    from Cons.prems(3) have "length (Rows ?appended) + length (concat chunks) < 2 ^ 63"
      by (simp add: Rows_Append)
    from Cons.IH [OF bounded less this ac] show ?thesis .
  next
    case False
    with Cons.prems(4)
    have ac: "append_chunks desired chunks (result @ [?appended]) [] = (result', current')"
      by simp
    from False small have "unat desired \<le> length (Rows ?appended)"
      by (simp add: Count_less_iff)
    with Cons.prems(2) chunk have tol: "within_tolerance vector_size desired ?appended"
      by (intro emitted_within_tolerance)
    from assms(1) have empty: "length (Rows ([] :: 'a ColumnDataCollection)) < unat desired"
      by (simp add: Rows_empty)
    from Cons.prems(3) have "length (Rows ([] :: 'a ColumnDataCollection)) + length (concat chunks) < 2 ^ 63"
      by (simp add: Rows_empty)
    from Cons.IH [OF bounded empty this ac]
    obtain new where new: "result' = (result @ [?appended]) @ new"
        "\<forall>c \<in> set new. within_tolerance vector_size desired c"
      and cur: "length (Rows current') < unat desired" by blast
    from new tol have "result' = result @ (?appended # new)
        \<and> (\<forall>c \<in> set (?appended # new). within_tolerance vector_size desired c)" by simp
    with cur show ?thesis by blast
  qed
qed

lemma repartition_sizes:
  assumes "0 < unat desired" and "unat desired < 2 ^ 63"
    and "\<forall>c \<in> set collections. \<forall>chunk \<in> set (Chunks c). length chunk \<le> unat vector_size"
    and "\<forall>cur. current = Some cur \<longrightarrow> length (Rows cur) < unat desired"
    and "length (current_rows current) + length (concat (map Rows collections)) < 2 ^ 63"
    and "repartition vector_size desired collections result current = (result', current')"
  shows "(\<exists>new. result' = result @ new \<and> (\<forall>c \<in> set new. within_tolerance vector_size desired c))
       \<and> (\<forall>cur. current' = Some cur \<longrightarrow> length (Rows cur) < unat desired)"
  using assms(3-)
proof (induction collections arbitrary: result current)
  case Nil
  then show ?case by simp
next
  case (Cons c collections)
  from Cons.prems(1) have bounded:
      "\<forall>c \<in> set collections. \<forall>chunk \<in> set (Chunks c). length chunk \<le> unat vector_size"
    and chunks: "\<forall>chunk \<in> set (Chunks c). length chunk \<le> unat vector_size" by simp_all
  from Cons.prems(3) have small: "length (Rows c) < 2 ^ 63"
    and rest: "length (concat (map Rows collections)) < 2 ^ 63" by simp_all
  have via_chunks: ?case
    if ac: "append_chunks desired (Chunks c) result start = (r, cur)"
      and rp: "repartition vector_size desired collections r (Some cur) = (result', current')"
      and start: "length (Rows start) < unat desired"
      and total: "length (Rows start) + length (Rows c) + length (concat (map Rows collections)) < 2 ^ 63"
    for start r cur
  proof -
    from total have "length (Rows start) + length (concat (Chunks c)) < 2 ^ 63"
      by (simp add: Rows_Chunks)
    from append_chunks_sizes [OF assms(1) chunks start this ac]
    obtain new where new: "r = result @ new" "\<forall>c \<in> set new. within_tolerance vector_size desired c"
      and less: "length (Rows cur) < unat desired" by blast
    from less have inv: "\<forall>x. Some cur = Some x \<longrightarrow> length (Rows x) < unat desired" by simp
    from append_chunks_rows [OF ac]
    have "length (concat (map Rows r)) + length (Rows cur) =
          length (concat (map Rows result)) + length (Rows start) + length (Rows c)"
      by (metis Rows_Chunks length_append add.assoc)
    with new(1) have "length (Rows cur) \<le> length (Rows start) + length (Rows c)" by simp
    with total
    have "length (current_rows (Some cur)) + length (concat (map Rows collections)) < 2 ^ 63" by simp
    from Cons.IH [OF bounded inv this rp]
    obtain new' where new': "result' = r @ new'" "\<forall>c \<in> set new'. within_tolerance vector_size desired c"
      and cur': "\<forall>x. current' = Some x \<longrightarrow> length (Rows x) < unat desired" by blast
    from new new' have "result' = result @ (new @ new')
        \<and> (\<forall>c \<in> set (new @ new'). within_tolerance vector_size desired c)" by auto
    with cur' show ?thesis by blast
  qed
  show ?case
  proof (cases current)
    case None
    show ?thesis
    proof (cases "CorrectSizeForBatch vector_size (Count c) desired")
      case True
      with None Cons.prems(4)
      have rp: "repartition vector_size desired collections (result @ [c]) None = (result', current')"
        by simp
      from True CorrectSizeForBatch_iff [OF small assms(2)]
      have tol: "within_tolerance vector_size desired c" by simp
      have inv: "\<forall>cur. None = Some cur \<longrightarrow> length (Rows cur) < unat desired" by simp
      from rest have "length (current_rows None) + length (concat (map Rows collections)) < 2 ^ 63"
        by simp
      from Cons.IH [OF bounded inv this rp]
      obtain new where new: "result' = (result @ [c]) @ new"
          "\<forall>c \<in> set new. within_tolerance vector_size desired c"
        and cur: "\<forall>cur. current' = Some cur \<longrightarrow> length (Rows cur) < unat desired" by blast
      from new tol have "result' = result @ (c # new)
          \<and> (\<forall>c \<in> set (c # new). within_tolerance vector_size desired c)" by simp
      with cur show ?thesis by blast
    next
      case False
      show ?thesis
      proof (cases "Count c < desired")
        case True
        with False None Cons.prems(4)
        have rp: "repartition vector_size desired collections result (Some c) = (result', current')"
          by simp
        from True Count_less_iff [OF small]
        have inv: "\<forall>cur. Some c = Some cur \<longrightarrow> length (Rows cur) < unat desired" by simp
        from Cons.prems(3)
        have "length (current_rows (Some c)) + length (concat (map Rows collections)) < 2 ^ 63"
          by simp
        from Cons.IH [OF bounded inv this rp] show ?thesis .
      next
        case large: False
        obtain r cur where ac: "append_chunks desired (Chunks c) result [] = (r, cur)"
          by (cases "append_chunks desired (Chunks c) result []")
        with False large None Cons.prems(4)
        have rp: "repartition vector_size desired collections r (Some cur) = (result', current')"
          by simp
        from assms(1) have e: "length (Rows ([] :: 'a ColumnDataCollection)) < unat desired"
          by (simp add: Rows_empty)
        from Cons.prems(3)
        have "length (Rows ([] :: 'a ColumnDataCollection)) + length (Rows c)
                + length (concat (map Rows collections)) < 2 ^ 63"
          by (simp add: Rows_empty)
        from ac rp e this show ?thesis by (rule via_chunks)
      qed
    qed
  next
    case (Some current_collection)
    obtain r cur where ac: "append_chunks desired (Chunks c) result current_collection = (r, cur)"
      by (cases "append_chunks desired (Chunks c) result current_collection")
    with Some Cons.prems(4)
    have rp: "repartition vector_size desired collections r (Some cur) = (result', current')"
      by simp
    from Some Cons.prems(2) have less0: "length (Rows current_collection) < unat desired" by simp
    from Some Cons.prems(3)
    have "length (Rows current_collection) + length (Rows c)
            + length (concat (map Rows collections)) < 2 ^ 63"
      by simp
    from ac rp less0 this show ?thesis by (rule via_chunks)
  qed
qed

lemma RepartitionBatches_Raised:
  "RepartitionBatches vector_size gstate min_index final = Raised e s \<Longrightarrow>
     global_state s = global_state gstate \<and> batch_data s = batch_data gstate"
  by (auto simp: RepartitionBatches_unfold Let_def split: if_splits prod.splits option.splits)

lemma raw_rows_map_snd:
  "concat (map Rows (map snd m)) = raw_rows m"
  "concat (map (Rows \<circ> snd) m) = raw_rows m"
  by (simp_all add: raw_rows_def comp_def)

lemma raw_rows_take_drop:
  "raw_rows m = raw_rows (takeWhile P m) @ raw_rows (dropWhile P m)"
  using raw_rows_split [of m P] by (simp only: raw_rows_map_snd)

lemma drained_facts:
  fixes gstate :: "'r BatchCopyToGlobalState"
  assumes B: "0 < unat (batch_size gstate)" "unat (batch_size gstate) < 2 ^ 63"
    and total: "length (raw_rows (raw_batches gstate)) < 2 ^ 63"
    and chunks: "chunks_bounded vector_size (raw_batches gstate)"
    and rp: "repartition vector_size (batch_size gstate)
               (map snd (takeWhile (\<lambda>e. fst e < min_index) (raw_batches gstate))) [] None = (result, Some current)"
  shows "\<forall>c \<in> set result. within_tolerance vector_size (batch_size gstate) c"
    and "concat (map Rows result) @ Rows current = raw_rows (takeWhile (\<lambda>e. fst e < min_index) (raw_batches gstate))"
    and "length (Rows current) < 2 ^ 63"
proof -
  let ?drained = "takeWhile (\<lambda>e. fst e < min_index) (raw_batches gstate)"
  have len: "length (raw_rows ?drained) \<le> length (raw_rows (raw_batches gstate))"
    by (subst (2) raw_rows_take_drop [of _ "\<lambda>e. fst e < min_index"]) simp
  from chunks have bounded:
    "\<forall>c \<in> set (map snd ?drained). \<forall>chunk \<in> set (Chunks c). length chunk \<le> unat vector_size"
    by (auto simp: chunks_bounded_def dest!: set_takeWhileD)
  have inv: "\<forall>cur. (None :: 'r ColumnDataCollection option) = Some cur \<longrightarrow> length (Rows cur) < unat (batch_size gstate)"
    by simp
  from len total
  have "length (current_rows None) + length (concat (map Rows (map snd ?drained))) < 2 ^ 63"
    by (simp add: raw_rows_map_snd)
  from repartition_sizes [OF B bounded inv this rp]
  show "\<forall>c \<in> set result. within_tolerance vector_size (batch_size gstate) c" by auto
  from repartition_rows [OF rp]
  show rows: "concat (map Rows result) @ Rows current = raw_rows ?drained"
    by (simp add: raw_rows_map_snd)
  have "length (Rows current) \<le> length (raw_rows ?drained)"
    by (subst rows [symmetric]) simp
  with len total show "length (Rows current) < 2 ^ 63" by simp
qed

lemma repartition_outcomes:
  fixes gstate :: "'r BatchCopyToGlobalState"
  assumes "0 < unat (batch_size gstate)" and "unat (batch_size gstate) < 2 ^ 63"
    and "length (raw_rows (raw_batches gstate)) < 2 ^ 63"
    and "chunks_bounded vector_size (raw_batches gstate)"
  shows
    "(let drained = takeWhile (\<lambda>e. fst e < min_index) (raw_batches gstate);
          remaining = dropWhile (\<lambda>e. fst e < min_index) (raw_batches gstate)
      in
      (case RepartitionBatches vector_size gstate min_index False of
         Raised e s \<Rightarrow> global_state s = global_state gstate
       | Done g' \<Rightarrow>
           (\<exists>emitted.
              global_state g' = global_state gstate @ map (\<lambda>c. (Lock, prepare_batch c)) emitted
              \<and> (\<forall>c \<in> set emitted. within_tolerance vector_size (batch_size gstate) c)
              \<and> (g' = gstate
                 \<or> raw_batches g' = remaining \<and> concat (map Rows emitted) = raw_rows drained
                 \<or> (\<exists>leftover.
                       raw_batches g' = (fst (last drained), leftover) # remaining
                       \<and> drained \<noteq> [] \<and> Rows leftover \<noteq> []
                       \<and> \<not> within_tolerance vector_size (batch_size gstate) leftover
                       \<and> concat (map Rows emitted) @ Rows leftover = raw_rows drained))))
      \<and> (\<forall>g'. RepartitionBatches vector_size gstate min_index True = Done g' \<longrightarrow>
            raw_batches g' = remaining
            \<and> (\<exists>emitted.
                  global_state g' = global_state gstate @ map (\<lambda>c. (Lock, prepare_batch c)) emitted
                  \<and> concat (map Rows emitted) = raw_rows drained)))"
proof -
  let ?P = "\<lambda>e. fst e < min_index"
  let ?drained = "takeWhile ?P (raw_batches gstate)"
  let ?remaining = "dropWhile ?P (raw_batches gstate)"
  let ?B = "batch_size gstate"
  let ?log = "\<lambda>emitted. global_state gstate @ map (\<lambda>c. (Lock, prepare_batch c)) emitted"
  from assms(3) have fits: "length (raw_rows (raw_batches gstate)) < 2 ^ 64" by simp
  note facts = drained_facts [OF assms]
  have nonfinal:
    "\<exists>emitted. global_state g' = ?log emitted
       \<and> (\<forall>c \<in> set emitted. within_tolerance vector_size ?B c)
       \<and> (g' = gstate
          \<or> raw_batches g' = ?remaining \<and> concat (map Rows emitted) = raw_rows ?drained
          \<or> (\<exists>leftover. raw_batches g' = (fst (last ?drained), leftover) # ?remaining
                \<and> ?drained \<noteq> [] \<and> Rows leftover \<noteq> []
                \<and> \<not> within_tolerance vector_size ?B leftover
                \<and> concat (map Rows emitted) @ Rows leftover = raw_rows ?drained))"
    if ret: "RepartitionBatches vector_size gstate min_index False = Done g'" for g'
    using ret fits
  proof (cases rule: RepartitionBatches_Done_cases)
    case cancelled
    then have "global_state g' = ?log [] \<and> (\<forall>c \<in> set []. within_tolerance vector_size ?B c) \<and> g' = gstate"
      by simp
    then show ?thesis by blast
  next
    case (emitted result current)
    from emitted(3) CorrectSizeForBatch_iff [OF facts(3) [OF emitted(1)] assms(2)]
    have "within_tolerance vector_size ?B current" by simp
    with facts(1) [OF emitted(1)]
    have tol: "\<forall>c \<in> set (result @ [current]). within_tolerance vector_size ?B c" by simp
    from facts(2) [OF emitted(1)]
    have "concat (map Rows (result @ [current])) = raw_rows ?drained" by simp
    with tol emitted(2) show ?thesis
      by (intro exI [of _ "result @ [current]"]) simp
  next
    case (kept result current)
    from kept(6) CorrectSizeForBatch_iff [OF facts(3) [OF kept(1)] assms(2)]
    have out: "\<not> within_tolerance vector_size ?B current" by simp
    from kept(4) have ne: "Rows current \<noteq> []" by (auto simp: Count_def)
    from kept(2) kept(3) ne out facts(2) [OF kept(1)]
    have "\<exists>leftover. raw_batches g' = (fst (last ?drained), leftover) # ?remaining
                \<and> ?drained \<noteq> [] \<and> Rows leftover \<noteq> []
                \<and> \<not> within_tolerance vector_size ?B leftover
                \<and> concat (map Rows result) @ Rows leftover = raw_rows ?drained"
      by (intro exI [of _ current]) simp
    with facts(1) [OF kept(1)] kept(2) show ?thesis
      by (intro exI [of _ result]) simp
  next
    case (exhausted result current)
    from facts(2) [OF exhausted(1)] exhausted(3)
    have "concat (map Rows result) = raw_rows ?drained" by simp
    with facts(1) [OF exhausted(1)] exhausted(2) show ?thesis
      by (intro exI [of _ result]) simp
  qed
  have final:
    "raw_batches g' = ?remaining
       \<and> (\<exists>emitted. global_state g' = ?log emitted \<and> concat (map Rows emitted) = raw_rows ?drained)"
    if ret: "RepartitionBatches vector_size gstate min_index True = Done g'" for g'
    using ret fits
  proof (cases rule: RepartitionBatches_Done_cases)
    case cancelled
    then have "raw_batches gstate = []" by simp
    with cancelled have "raw_batches g' = ?remaining \<and> global_state g' = ?log []
        \<and> concat (map Rows []) = raw_rows ?drained"
      by (simp add: raw_rows_def)
    then show ?thesis by blast
  next
    case (emitted result current)
    from facts(2) [OF emitted(1)]
    have "concat (map Rows (result @ [current])) = raw_rows ?drained" by simp
    with emitted(2) show ?thesis
      by (intro conjI exI [of _ "result @ [current]"]) simp_all
  next
    case (kept result current)
    then show ?thesis by simp
  next
    case (exhausted result current)
    from facts(2) [OF exhausted(1)] exhausted(3)
    have "concat (map Rows result) = raw_rows ?drained" by simp
    with exhausted(2) show ?thesis
      by (intro conjI exI [of _ result]) simp_all
  qed
  have "case RepartitionBatches vector_size gstate min_index False of
          Raised e s \<Rightarrow> global_state s = global_state gstate
        | Done g' \<Rightarrow>
            (\<exists>emitted. global_state g' = ?log emitted
               \<and> (\<forall>c \<in> set emitted. within_tolerance vector_size ?B c)
               \<and> (g' = gstate
                  \<or> raw_batches g' = ?remaining \<and> concat (map Rows emitted) = raw_rows ?drained
                  \<or> (\<exists>leftover. raw_batches g' = (fst (last ?drained), leftover) # ?remaining
                        \<and> ?drained \<noteq> [] \<and> Rows leftover \<noteq> []
                        \<and> \<not> within_tolerance vector_size ?B leftover
                        \<and> concat (map Rows emitted) @ Rows leftover = raw_rows ?drained)))"
  proof (cases "RepartitionBatches vector_size gstate min_index False")
    case (Done g')
    from nonfinal [OF Done] Done show ?thesis by simp
  next
    case (Raised e s)
    from RepartitionBatches_Raised [OF Raised] Raised show ?thesis by simp
  qed
  with final show ?thesis by (simp add: Let_def)
qed

lemma candidate_rows_drained:
  "candidate_rows min_index m 0 =
     word_of_nat (length (raw_rows (takeWhile (\<lambda>e. fst e < min_index) m)))"
  by (simp add: candidate_rows_takeWhile raw_rows_def length_concat comp_def)

lemma enough_rows_iff:
  assumes "length (raw_rows m) < 2 ^ 63"
  shows "candidate_rows min_index m 0 < desired \<longleftrightarrow>
           length (raw_rows (takeWhile (\<lambda>e. fst e < min_index) m)) < unat desired"
proof -
  let ?n = "length (raw_rows (takeWhile (\<lambda>e. fst e < min_index) m))"
  have "?n \<le> length (raw_rows m)"
    by (subst (2) raw_rows_take_drop [of _ "\<lambda>e. fst e < min_index"]) simp
  with assms have "?n < 2 ^ 64" by simp
  then have "unat (word_of_nat ?n :: idx_t) = ?n" by (simp add: unat_of_nat)
  then show ?thesis by (simp add: candidate_rows_drained word_less_nat_alt)
qed

lemma Count_positive:
  assumes "length (Rows c) < 2 ^ 63" and "Rows c \<noteq> []"
  shows "Count c > 0"
proof -
  from assms(1) have "unat (Count c) = length (Rows c)" by (rule unat_Count)
  with assms(2) have "unat (Count c) \<noteq> 0" by simp
  then show ?thesis by (simp add: word_greater_zero_iff unat_eq_0)
qed

lemma repartition_Some_gathered:
  "repartition vector_size desired collections [] None = (result, Some current) \<Longrightarrow> collections \<noteq> []"
  by (cases collections) simp_all

text \<open>
  A pass that is not cancelled and ends its loop with an accumulator that holds rows
  returns: it emits the accumulator after the result when the pass is final or the
  accumulator has the right size, and puts it back under the last index gathered
  otherwise.
\<close>

lemma RepartitionBatches_with_accumulator:
  fixes gstate :: "'r BatchCopyToGlobalState"
  assumes run: "final \<or> \<not> candidate_rows min_index (raw_batches gstate) 0 < batch_size gstate"
    and rp: "repartition vector_size (batch_size gstate)
               (map snd (takeWhile (\<lambda>e. fst e < min_index) (raw_batches gstate))) [] None = (result, Some current)"
    and pos: "Count current > 0"
  shows "RepartitionBatches vector_size gstate min_index final =
     (if final \<or> CorrectSizeForBatch vector_size (Count current) (batch_size gstate)
      then Done (gstate\<lparr>raw_batches := dropWhile (\<lambda>e. fst e < min_index) (raw_batches gstate),
                   global_state := global_state gstate
                      @ map (\<lambda>c. (Lock, prepare_batch c)) (result @ [current])\<rparr>)
      else Done (gstate\<lparr>raw_batches :=
                     (fst (last (takeWhile (\<lambda>e. fst e < min_index) (raw_batches gstate))), current)
                       # dropWhile (\<lambda>e. fst e < min_index) (raw_batches gstate),
                   global_state := global_state gstate @ map (\<lambda>c. (Lock, prepare_batch c)) result\<rparr>))"
proof -
  let ?P = "\<lambda>e. fst e < min_index"
  let ?drained = "takeWhile ?P (raw_batches gstate)"
  let ?remaining = "dropWhile ?P (raw_batches gstate)"
  from repartition_Some_gathered [OF rp] have ne: "?drained \<noteq> []" by simp
  then have raw: "raw_batches gstate \<noteq> []" by auto
  from last_takeWhile_below_hd_dropWhile [OF ne]
  have front: "map_assign (fst (last ?drained)) current ?remaining = (fst (last ?drained), current) # ?remaining"
    by (rule map_assign_front)
  from run raw rp pos ne front show ?thesis
    by (auto simp: RepartitionBatches_unfold Let_def prepare_and_flush_append)
qed

text \<open>
  Claim C6. Let the target batch size be positive and, like the number of rows in the
  raw map, below \<open>2 ^ 63\<close>, and let no chunk hold more than \<open>STANDARD_VECTOR_SIZE\<close>
  rows. Then every collection that a pass that is not final passes on for preparation
  has a row count that differs from the target by less than \<open>STANDARD_VECTOR_SIZE\<close>
  (and a pass that ends in an exception passes on nothing). The pass either changes
  nothing, or emits all the rows it gathered, or keeps a leftover: a collection that is
  not empty and not within tolerance, put back into the raw map under the index of the
  last entry gathered, with the rows emitted and the leftover making up the rows
  gathered. A final pass puts nothing back: all the rows it gathered are emitted, the
  leftover as it is. And the passes do return: when the loop ends with an accumulator
  that holds rows, a final pass returns with the accumulator emitted after the result,
  whatever its size, and a pass that is not final and has at least the target number of
  rows below the watermark returns with the accumulator emitted when it is within
  tolerance and put back into the raw map under the last index gathered when it is not.
\<close>

theorem repartition_sizing:
  fixes gstate :: "'r BatchCopyToGlobalState"
  assumes "0 < unat (batch_size gstate)" and "unat (batch_size gstate) < 2 ^ 63"
    and "length (raw_rows (raw_batches gstate)) < 2 ^ 63"
    and "chunks_bounded vector_size (raw_batches gstate)"
  shows
    "(let drained = takeWhile (\<lambda>e. fst e < min_index) (raw_batches gstate);
          remaining = dropWhile (\<lambda>e. fst e < min_index) (raw_batches gstate)
      in
      (case RepartitionBatches vector_size gstate min_index False of
         Raised e s \<Rightarrow> global_state s = global_state gstate
       | Done g' \<Rightarrow>
           (\<exists>emitted.
              global_state g' = global_state gstate @ map (\<lambda>c. (Lock, prepare_batch c)) emitted
              \<and> (\<forall>c \<in> set emitted. within_tolerance vector_size (batch_size gstate) c)
              \<and> (g' = gstate
                 \<or> raw_batches g' = remaining \<and> concat (map Rows emitted) = raw_rows drained
                 \<or> (\<exists>leftover.
                       raw_batches g' = (fst (last drained), leftover) # remaining
                       \<and> drained \<noteq> [] \<and> Rows leftover \<noteq> []
                       \<and> \<not> within_tolerance vector_size (batch_size gstate) leftover
                       \<and> concat (map Rows emitted) @ Rows leftover = raw_rows drained))))
      \<and> (\<forall>g'. RepartitionBatches vector_size gstate min_index True = Done g' \<longrightarrow>
            raw_batches g' = remaining
            \<and> (\<exists>emitted.
                  global_state g' = global_state gstate @ map (\<lambda>c. (Lock, prepare_batch c)) emitted
                  \<and> concat (map Rows emitted) = raw_rows drained))
      \<and> (\<forall>result current.
            repartition vector_size (batch_size gstate) (map snd drained) [] None = (result, Some current)
            \<and> Rows current \<noteq> [] \<longrightarrow>
              RepartitionBatches vector_size gstate min_index True =
                Done (gstate\<lparr>raw_batches := remaining,
                             global_state := global_state gstate
                                @ map (\<lambda>c. (Lock, prepare_batch c)) (result @ [current])\<rparr>))
      \<and> (\<forall>result current.
            repartition vector_size (batch_size gstate) (map snd drained) [] None = (result, Some current)
            \<and> Rows current \<noteq> []
            \<and> unat (batch_size gstate) \<le> length (raw_rows drained) \<longrightarrow>
              RepartitionBatches vector_size gstate min_index False =
                (if within_tolerance vector_size (batch_size gstate) current
                 then Done (gstate\<lparr>raw_batches := remaining,
                                  global_state := global_state gstate
                                     @ map (\<lambda>c. (Lock, prepare_batch c)) (result @ [current])\<rparr>)
                 else Done (gstate\<lparr>raw_batches := (fst (last drained), current) # remaining,
                                  global_state := global_state gstate
                                     @ map (\<lambda>c. (Lock, prepare_batch c)) result\<rparr>))))"
proof -
  let ?P = "\<lambda>e. fst e < min_index"
  let ?drained = "takeWhile ?P (raw_batches gstate)"
  let ?remaining = "dropWhile ?P (raw_batches gstate)"
  let ?B = "batch_size gstate"
  let ?log = "\<lambda>emitted. global_state gstate @ map (\<lambda>c. (Lock, prepare_batch c)) emitted"
  note facts = drained_facts [OF assms]
  have final: "RepartitionBatches vector_size gstate min_index True =
                Done (gstate\<lparr>raw_batches := ?remaining, global_state := ?log (result @ [current])\<rparr>)"
    if rp: "repartition vector_size ?B (map snd ?drained) [] None = (result, Some current)"
      and ne: "Rows current \<noteq> []" for result current
  proof -
    from Count_positive [OF facts(3) [OF rp] ne] have pos: "Count current > 0" .
    from RepartitionBatches_with_accumulator [of True min_index gstate vector_size result current, OF _ rp pos]
    show ?thesis by simp
  qed
  have nonfinal: "RepartitionBatches vector_size gstate min_index False =
        (if within_tolerance vector_size ?B current
         then Done (gstate\<lparr>raw_batches := ?remaining, global_state := ?log (result @ [current])\<rparr>)
         else Done (gstate\<lparr>raw_batches := (fst (last ?drained), current) # ?remaining,
                          global_state := ?log result\<rparr>))"
    if rp: "repartition vector_size ?B (map snd ?drained) [] None = (result, Some current)"
      and ne: "Rows current \<noteq> []"
      and enough: "unat ?B \<le> length (raw_rows ?drained)" for result current
  proof -
    from Count_positive [OF facts(3) [OF rp] ne] have pos: "Count current > 0" .
    from enough enough_rows_iff [OF assms(3), of min_index ?B]
    have run: "False \<or> \<not> candidate_rows min_index (raw_batches gstate) 0 < ?B" by simp
    from RepartitionBatches_with_accumulator [OF run rp pos]
      CorrectSizeForBatch_iff [OF facts(3) [OF rp] assms(2), of vector_size]
    show ?thesis by simp
  qed
  note outcomes = repartition_outcomes [OF assms, of min_index, unfolded Let_def]
  have c3: "\<forall>result current.
            repartition vector_size ?B (map snd ?drained) [] None = (result, Some current)
            \<and> Rows current \<noteq> [] \<longrightarrow>
              RepartitionBatches vector_size gstate min_index True =
                Done (gstate\<lparr>raw_batches := ?remaining, global_state := ?log (result @ [current])\<rparr>)"
    using final by blast
  have c4: "\<forall>result current.
            repartition vector_size ?B (map snd ?drained) [] None = (result, Some current)
            \<and> Rows current \<noteq> []
            \<and> unat ?B \<le> length (raw_rows ?drained) \<longrightarrow>
              RepartitionBatches vector_size gstate min_index False =
                (if within_tolerance vector_size ?B current
                 then Done (gstate\<lparr>raw_batches := ?remaining, global_state := ?log (result @ [current])\<rparr>)
                 else Done (gstate\<lparr>raw_batches := (fst (last ?drained), current) # ?remaining,
                                  global_state := ?log result\<rparr>))"
    using nonfinal by blast
  show ?thesis
    unfolding Let_def
    by (rule conjI [OF conjunct1 [OF outcomes] conjI [OF conjunct2 [OF outcomes] conjI [OF c3 c4]]])
qed

theorem repartition_sizing_witness:
  "0 < unat (batch_size g_pass) \<and> unat (batch_size g_pass) < 2 ^ 63
   \<and> length (raw_rows (raw_batches g_pass)) < 2 ^ 63
   \<and> chunks_bounded 2 (raw_batches g_pass)
   \<and> repartition 2 (batch_size g_pass)
         (map snd (takeWhile (\<lambda>e. fst e < 2) (raw_batches g_pass))) [] None =
       ([[[1, 2], [3, 4]]], Some [[5]])
   \<and> Rows [[5 :: nat]] \<noteq> []
   \<and> unat (batch_size g_pass) \<le> length (raw_rows (takeWhile (\<lambda>e. fst e < 2) (raw_batches g_pass)))
   \<and> within_tolerance 2 4 [[1, 2], [3, 4 :: nat]]
   \<and> \<not> within_tolerance 2 4 [[5 :: nat]]
   \<and> RepartitionBatches 2 g_pass 2 False =
       Done (g_pass\<lparr>raw_batches := [(1, [[5]])],
                    global_state := [(Lock, PreparedBatchData [[1, 2], [3, 4]])]\<rparr>)
   \<and> (\<exists>emitted. ([(Lock, PreparedBatchData [[1, 2], [3, 4]])] :: nat GlobalFunctionData) =
           map (\<lambda>c. (Lock, prepare_batch c)) emitted
         \<and> list_all (within_tolerance 2 4) emitted)
   \<and> RepartitionBatches 2 g_pass 2 True =
       Done (g_pass\<lparr>raw_batches := [],
                    global_state := [(Lock, PreparedBatchData [[1, 2], [3, 4]]),
                                     (Lock, PreparedBatchData [[5]])]\<rparr>)"
proof -
  let ?drained = "takeWhile (\<lambda>e. fst e < 2) (raw_batches g_pass)"
  let ?remaining = "dropWhile (\<lambda>e. fst e < 2) (raw_batches g_pass)"
  have h: "0 < unat (batch_size g_pass)" "unat (batch_size g_pass) < 2 ^ 63"
      "length (raw_rows (raw_batches g_pass)) < 2 ^ 63" "chunks_bounded 2 (raw_batches g_pass)"
    by (simp_all add: g_pass_def GetGlobalSinkState_def raw_rows_def Rows_def chunks_bounded_def Chunks_def)
  have rp: "repartition 2 (batch_size g_pass) (map snd ?drained) [] None =
       ([[[1, 2], [3, 4]]], Some [[5]])"
    by code_simp
  have ne: "Rows [[5 :: nat]] \<noteq> []" by (simp add: Rows_def)
  have enough: "unat (batch_size g_pass) \<le> length (raw_rows ?drained)"
    by (simp add: g_pass_def GetGlobalSinkState_def raw_rows_def Rows_def)
  have t: "within_tolerance 2 4 [[1, 2], [3, 4 :: nat]]" "\<not> within_tolerance 2 4 [[5 :: nat]]"
    by (simp_all add: within_tolerance_def Rows_def)
  have g: "global_state g_pass = []" "batch_size g_pass = 4"
      "?remaining = []" "fst (last ?drained) = 1"
    by (simp_all add: g_pass_def GetGlobalSinkState_def)
  note s = repartition_sizing [OF h, where min_index = 2, unfolded Let_def]
  note fin = s [THEN conjunct2, THEN conjunct2, THEN conjunct1, rule_format, OF conjI [OF rp ne]]
  note non = s [THEN conjunct2, THEN conjunct2, THEN conjunct2, rule_format,
                OF conjI [OF rp conjI [OF ne enough]]]
  from fin have f: "RepartitionBatches 2 g_pass 2 True =
       Done (g_pass\<lparr>raw_batches := [],
                    global_state := [(Lock, PreparedBatchData [[1, 2], [3, 4]]),
                                     (Lock, PreparedBatchData [[5]])]\<rparr>)"
    by (simp only: g append.simps list.map prepare_batch_def)
  from non t(2) have r: "RepartitionBatches 2 g_pass 2 False =
       Done (g_pass\<lparr>raw_batches := [(1, [[5]])],
                    global_state := [(Lock, PreparedBatchData [[1, 2], [3, 4]])]\<rparr>)"
    by (simp only: g append.simps list.map prepare_batch_def if_False)
  note first = s [THEN conjunct1, unfolded r outcome.case]
  from first obtain emitted where
    "global_state (g_pass\<lparr>raw_batches := [(1, [[5]])],
                    global_state := [(Lock, PreparedBatchData [[1, 2], [3, 4]])]\<rparr>) =
       global_state g_pass @ map (\<lambda>c. (Lock, prepare_batch c)) emitted"
    "\<forall>c \<in> set emitted. within_tolerance 2 (batch_size g_pass) c"
    by blast
  with g have "([(Lock, PreparedBatchData [[1, 2], [3, 4]])] :: nat GlobalFunctionData) =
           map (\<lambda>c. (Lock, prepare_batch c)) emitted
         \<and> list_all (within_tolerance 2 4) emitted"
    by (simp add: list_all_iff)
  then have e: "\<exists>emitted. ([(Lock, PreparedBatchData [[1, 2], [3, 4]])] :: nat GlobalFunctionData) =
           map (\<lambda>c. (Lock, prepare_batch c)) emitted
         \<and> list_all (within_tolerance 2 4) emitted" by (rule exI)
  from h rp ne enough t r e f show ?thesis by (intro conjI)
qed

subsection \<open>A pass over batches that already have the right size\<close>

lemma repartition_all_correct_size:
  "\<forall>c \<in> set collections. CorrectSizeForBatch vector_size (Count c) desired \<Longrightarrow>
     repartition vector_size desired collections result None = (result @ collections, None)"
  by (induction collections arbitrary: result) simp_all

lemma RepartitionBatches_all_correct_size:
  assumes "raw_batches gstate \<noteq> []"
    and "final \<or> \<not> candidate_rows min_index (raw_batches gstate) 0 < batch_size gstate"
    and "\<forall>e \<in> set (raw_batches gstate).
           fst e < min_index \<longrightarrow> CorrectSizeForBatch vector_size (Count (snd e)) (batch_size gstate)"
  shows "RepartitionBatches vector_size gstate min_index final =
           Raised NullPointerDereference
             (gstate\<lparr>raw_batches := dropWhile (\<lambda>e. fst e < min_index) (raw_batches gstate)\<rparr>)"
proof -
  let ?drained = "takeWhile (\<lambda>e. fst e < min_index) (raw_batches gstate)"
  from assms(3) have "\<forall>c \<in> set (map snd ?drained). CorrectSizeForBatch vector_size (Count c) (batch_size gstate)"
    by (auto dest: set_takeWhileD)
  then have "repartition vector_size (batch_size gstate) (map snd ?drained) [] None = (map snd ?drained, None)"
    using repartition_all_correct_size [of "map snd ?drained" vector_size "batch_size gstate" "[]"] by simp
  with assms(1,2) show ?thesis
    by (auto simp: RepartitionBatches_unfold Let_def)
qed

text \<open>
  Claim C5 says that for every gathered sequence of raw batches the rows of the emitted
  collections, followed by the leftover, are the rows of the input in batch order. The
  loops do preserve the rows (\<open>repartition_rows\<close>), but when every gathered collection is
  routed to the result directly, \<open>current_collection\<close> is still null after the loop and
  the test \<open>current_collection->Count() > 0\<close> dereferences it: the pass throws after the
  batches have left the raw map and before anything is prepared. With target size 3 and
  one batch of three rows, nothing is emitted, and the three rows are in neither map.
\<close>

theorem exact_size_batch_aborts_pass:
  "CorrectSizeForBatch 2048 (Count [[1, 2, 3 :: nat]]) (batch_size g_exact)
   \<and> RepartitionBatches 2048 g_exact 1 False =
       Raised NullPointerDereference (g_exact\<lparr>raw_batches := []\<rparr>)
   \<and> Finalize 2048 g_exact = Raised NullPointerDereference (g_exact\<lparr>raw_batches := []\<rparr>)
   \<and> global_state (g_exact\<lparr>raw_batches := []\<rparr>) = []
   \<and> raw_rows (raw_batches g_exact) = [1, 2, 3]"
  by code_simp

subsection \<open>Batch transitions\<close>

lemma FlushBatchData_frame:
  "raw_batches (FlushBatchData gstate min_index) = raw_batches gstate
   \<and> batch_size (FlushBatchData gstate min_index) = batch_size gstate"
proof (induction gstate min_index rule: FlushBatchData.induct)
  case (1 gstate min_index)
  show ?case
    by (subst (1 2) FlushBatchData.simps) (use 1 in \<open>auto simp: Let_def split: list.splits option.splits\<close>)
qed

lemma FlushBatchData_split:
  "\<exists>flushed. batch_data gstate = map (\<lambda>e. (fst e, Some (snd e))) flushed
                  @ batch_data (FlushBatchData gstate min_index)
     \<and> global_state (FlushBatchData gstate min_index) =
         global_state gstate @ map (\<lambda>e. (FlushLock, snd e)) flushed"
proof (induction gstate min_index rule: FlushBatchData.induct)
  case (1 gstate min_index)
  let ?stop = "active_flush gstate \<or> batch_data gstate = []
     \<or> min_index \<le> fst (hd (batch_data gstate)) \<or> snd (hd (batch_data gstate)) = None"
  show ?case
  proof (cases ?stop)
    case True
    then have "batch_data (FlushBatchData gstate min_index) = batch_data gstate
        \<and> global_state (FlushBatchData gstate min_index) = global_state gstate"
      by (subst (1 2) FlushBatchData.simps) (auto simp: Let_def split: list.splits option.splits)
    then have "batch_data gstate = map (\<lambda>e. (fst e, Some (snd e))) []
                  @ batch_data (FlushBatchData gstate min_index)
     \<and> global_state (FlushBatchData gstate min_index) =
         global_state gstate @ map (\<lambda>e. (FlushLock, snd e)) []" by simp
    then show ?thesis by blast
  next
    case False
    then obtain k batch rest where bd: "batch_data gstate = (k, Some batch) # rest"
      and k: "\<not> min_index \<le> k" and flag: "\<not> active_flush gstate"
      by (cases "batch_data gstate") auto
    let ?next = "gstate\<lparr>active_flush := True, batch_data := rest,
                   global_state := flush_batch FlushLock (global_state gstate) batch,
                   active_flush := False\<rparr>"
    from bd k flag have unfold: "FlushBatchData gstate min_index = FlushBatchData ?next min_index"
      by (subst FlushBatchData.simps) (simp add: Let_def)
    from bd have bd': "batch_data (gstate\<lparr>active_flush := True\<rparr>) = (k, Some batch) # rest"
      by simp
    from "1.IH" [OF flag refl bd' refl k refl]
    obtain flushed where "batch_data ?next = map (\<lambda>e. (fst e, Some (snd e))) flushed
                  @ batch_data (FlushBatchData ?next min_index)"
      and "global_state (FlushBatchData ?next min_index) =
         global_state ?next @ map (\<lambda>e. (FlushLock, snd e)) flushed"
      by auto
    with bd unfold have "batch_data gstate = map (\<lambda>e. (fst e, Some (snd e))) ((k, batch) # flushed)
                  @ batch_data (FlushBatchData gstate min_index)
     \<and> global_state (FlushBatchData gstate min_index) =
         global_state gstate @ map (\<lambda>e. (FlushLock, snd e)) ((k, batch) # flushed)"
      by (simp add: flush_batch_def)
    then show ?thesis by blast
  qed
qed

lemma map_insert_inserted:
  "map_insert k v m = (m', True) \<Longrightarrow> (k, v) \<in> set m'"
  by (induction m arbitrary: m') (auto split: if_splits prod.splits)

lemma map_insert_fresh:
  "k \<notin> fst ` set m \<Longrightarrow> snd (map_insert k v m)"
  by (induction m) (auto split: prod.splits)

lemma NextBatch_hand_off_cases:
  fixes gstate :: "'r BatchCopyToGlobalState"
  shows
    "(collection state = None \<longrightarrow>
        NextBatch vector_size gstate state =
          Done (gstate, state\<lparr>batch_index := partition_batch_index (partition_info state),
                               collection := Some []\<rparr>))
     \<and> (\<forall>c g' l'.
           collection state = Some c \<and> batch_size gstate = 0
           \<and> NextBatch vector_size gstate state = Done (g', l') \<longrightarrow>
             (batch_index state, Some (prepare_batch c)) \<in> set (batch_data g')
             \<or> (\<exists>new. global_state g' = global_state gstate @ new
                      \<and> (FlushLock, prepare_batch c) \<in> set new))
     \<and> (\<forall>c.
           collection state = Some c \<and> batch_size gstate \<noteq> 0
           \<and> batch_index state \<notin> fst ` set (raw_batches gstate)
           \<and> rows_below (partition_min_batch_index (partition_info state))
                 (fst (map_insert (batch_index state) c (raw_batches gstate)))
               < unat (batch_size gstate) \<longrightarrow>
             (\<exists>g' l'. NextBatch vector_size gstate state = Done (g', l')
                      \<and> (batch_index state, c) \<in> set (raw_batches g')))"
proof (intro conjI allI impI)
  assume "collection state = None"
  then show "NextBatch vector_size gstate state =
          Done (gstate, state\<lparr>batch_index := partition_batch_index (partition_info state),
                               collection := Some []\<rparr>)"
    by (simp add: NextBatch_def InitializeCollection_def)
next
  fix c g' l'
  let ?min = "partition_min_batch_index (partition_info state)"
  assume a: "collection state = Some c \<and> batch_size gstate = 0
           \<and> NextBatch vector_size gstate state = Done (g', l')"
  then obtain p where p: "PrepareBatchData gstate (batch_index state) c = Done p"
    and g': "g' = FlushBatchData p ?min"
    by (auto simp: NextBatch_def Let_def split: outcome.splits)
  from p obtain m where ins: "map_insert (batch_index state) (Some (prepare_batch c)) (batch_data gstate) = (m, True)"
    and pm: "p = gstate\<lparr>batch_data := m\<rparr>"
    by (auto simp: PrepareBatchData_def Let_def split: prod.splits if_splits)
  from map_insert_inserted [OF ins] pm
  have mem: "(batch_index state, Some (prepare_batch c)) \<in> set (batch_data p)" by simp
  from FlushBatchData_split [of p ?min] g' pm
  obtain flushed where bd: "batch_data p = map (\<lambda>e. (fst e, Some (snd e))) flushed @ batch_data g'"
    and gs: "global_state g' = global_state gstate @ map (\<lambda>e. (FlushLock, snd e)) flushed"
    by auto
  from mem bd consider "(batch_index state, Some (prepare_batch c)) \<in> set (batch_data g')"
    | "(batch_index state, prepare_batch c) \<in> set flushed" by auto
  then show "(batch_index state, Some (prepare_batch c)) \<in> set (batch_data g')
             \<or> (\<exists>new. global_state g' = global_state gstate @ new
                      \<and> (FlushLock, prepare_batch c) \<in> set new)"
  proof cases
    case 1
    then show ?thesis by simp
  next
    case 2
    then have "(FlushLock, prepare_batch c) \<in> set (map (\<lambda>e. (FlushLock, snd e)) flushed)"
      by force
    with gs show ?thesis by blast
  qed
next
  fix c
  let ?min = "partition_min_batch_index (partition_info state)"
  let ?m = "fst (map_insert (batch_index state) c (raw_batches gstate))"
  assume a: "collection state = Some c \<and> batch_size gstate \<noteq> 0
           \<and> batch_index state \<notin> fst ` set (raw_batches gstate)
           \<and> rows_below ?min ?m < unat (batch_size gstate)"
  then have fresh: "snd (map_insert (batch_index state) c (raw_batches gstate))"
    by (simp add: map_insert_fresh)
  then have ins: "map_insert (batch_index state) c (raw_batches gstate) = (?m, True)"
    by (cases "map_insert (batch_index state) c (raw_batches gstate)") simp
  let ?added = "gstate\<lparr>raw_batches := ?m\<rparr>"
  from fresh have add: "AddBatchData gstate (batch_index state) c = Done ?added"
    by (auto simp: AddBatchData_def split: prod.splits)
  from a have "candidate_rows ?min (raw_batches ?added) 0 < batch_size ?added"
    by (simp add: candidate_rows_below_size)
  then have rep: "RepartitionBatches vector_size ?added ?min False = Done ?added"
    by (simp add: RepartitionBatches_def)
  from a add rep
  have nb: "NextBatch vector_size gstate state =
        Done (FlushBatchData ?added ?min,
              InitializeCollection (state\<lparr>collection := None,
                                          batch_index := partition_batch_index (partition_info state)\<rparr>))"
    by (simp add: NextBatch_def Let_def)
  from map_insert_inserted [OF ins] FlushBatchData_frame [of ?added ?min]
  have "(batch_index state, c) \<in> set (raw_batches (FlushBatchData ?added ?min))" by simp
  with nb show "\<exists>g' l'. NextBatch vector_size gstate state = Done (g', l')
                      \<and> (batch_index state, c) \<in> set (raw_batches g')" by blast
qed

text \<open>
  Claim C10, as amended. \<open>NextBatch\<close> hands the accumulated collection to the registry
  whenever the local state owns a collection, whatever its row count; it tests the pointer,
  not the count. Only a local state without a collection (before its first transition)
  submits nothing, and then the global state is unchanged. With no target batch size and
  an index that is new to the prepared map, \<open>PrepareBatchData\<close> enters the prepared form
  of the collection under the previous batch index and the transition returns with the
  flush run on that map; whenever such a transition returns, the prepared form is in the
  prepared map or has been passed to \<open>flush_batch\<close>. With a target batch size and an
  index that is new to the raw map, \<open>AddBatchData\<close> enters the collection under the
  previous batch index, and the transition goes on with the repartition pass and the flush
  on the map that holds it; with fewer rows below the watermark than the target, the
  collection is still in the raw map when the transition returns. With an index that one
  of the ordered maps already holds, the transition raises the duplicate-index exception.
\<close>

theorem NextBatch_hands_off_any_collection:
  fixes gstate :: "'r BatchCopyToGlobalState"
  shows
    "(collection state = None \<longrightarrow>
        NextBatch vector_size gstate state =
          Done (gstate, state\<lparr>batch_index := partition_batch_index (partition_info state),
                               collection := Some []\<rparr>))
     \<and> (\<forall>c g' l'.
           collection state = Some c \<and> batch_size gstate = 0
           \<and> NextBatch vector_size gstate state = Done (g', l') \<longrightarrow>
             (batch_index state, Some (prepare_batch c)) \<in> set (batch_data g')
             \<or> (\<exists>new. global_state g' = global_state gstate @ new
                      \<and> (FlushLock, prepare_batch c) \<in> set new))
     \<and> (\<forall>c.
           collection state = Some c \<and> batch_size gstate \<noteq> 0
           \<and> batch_index state \<notin> fst ` set (raw_batches gstate)
           \<and> rows_below (partition_min_batch_index (partition_info state))
                 (fst (map_insert (batch_index state) c (raw_batches gstate)))
               < unat (batch_size gstate) \<longrightarrow>
             (\<exists>g' l'. NextBatch vector_size gstate state = Done (g', l')
                      \<and> (batch_index state, c) \<in> set (raw_batches g')))
     \<and> (\<forall>c.
           collection state = Some c \<and> batch_size gstate = 0
           \<and> batch_index state \<notin> fst ` set (batch_data gstate) \<longrightarrow>
             (\<exists>prepared.
                PrepareBatchData gstate (batch_index state) c = Done prepared
                \<and> (batch_index state, Some (prepare_batch c)) \<in> set (batch_data prepared)
                \<and> NextBatch vector_size gstate state =
                    Done (FlushBatchData prepared (partition_min_batch_index (partition_info state)),
                          state\<lparr>batch_index := partition_batch_index (partition_info state),
                                 collection := Some []\<rparr>)))
     \<and> (\<forall>c.
           collection state = Some c \<and> batch_size gstate \<noteq> 0
           \<and> batch_index state \<notin> fst ` set (raw_batches gstate) \<longrightarrow>
             (\<exists>added.
                AddBatchData gstate (batch_index state) c = Done added
                \<and> (batch_index state, c) \<in> set (raw_batches added)
                \<and> NextBatch vector_size gstate state =
                    (case RepartitionBatches vector_size added
                            (partition_min_batch_index (partition_info state)) False of
                       Raised e g \<Rightarrow> Raised e (g, state\<lparr>collection := None\<rparr>)
                     | Done repartitioned \<Rightarrow>
                         Done (FlushBatchData repartitioned
                                 (partition_min_batch_index (partition_info state)),
                               state\<lparr>batch_index := partition_batch_index (partition_info state),
                                      collection := Some []\<rparr>))))
     \<and> (\<forall>c.
           collection state = Some c
           \<and> (if batch_size gstate \<noteq> 0
               then strictly_ordered (raw_batches gstate)
                    \<and> batch_index state \<in> fst ` set (raw_batches gstate)
               else strictly_ordered (batch_data gstate)
                    \<and> batch_index state \<in> fst ` set (batch_data gstate)) \<longrightarrow>
             NextBatch vector_size gstate state =
               Raised (DuplicateBatchIndex (batch_index state)) (gstate, state\<lparr>collection := None\<rparr>))"
proof -
  let ?min = "partition_min_batch_index (partition_info state)"
  let ?next = "state\<lparr>batch_index := partition_batch_index (partition_info state),
                      collection := Some []\<rparr>"
  have c4: "\<exists>prepared.
                PrepareBatchData gstate (batch_index state) c = Done prepared
                \<and> (batch_index state, Some (prepare_batch c)) \<in> set (batch_data prepared)
                \<and> NextBatch vector_size gstate state = Done (FlushBatchData prepared ?min, ?next)"
    if a: "collection state = Some c \<and> batch_size gstate = 0
           \<and> batch_index state \<notin> fst ` set (batch_data gstate)" for c
  proof -
    let ?m = "fst (map_insert (batch_index state) (Some (prepare_batch c)) (batch_data gstate))"
    from a have "snd (map_insert (batch_index state) (Some (prepare_batch c)) (batch_data gstate))"
      by (simp add: map_insert_fresh)
    then have ins: "map_insert (batch_index state) (Some (prepare_batch c)) (batch_data gstate) = (?m, True)"
      by (cases "map_insert (batch_index state) (Some (prepare_batch c)) (batch_data gstate)") simp
    then have p: "PrepareBatchData gstate (batch_index state) c = Done (gstate\<lparr>batch_data := ?m\<rparr>)"
      by (auto simp: PrepareBatchData_def Let_def split: prod.splits)
    from map_insert_inserted [OF ins]
    have mem: "(batch_index state, Some (prepare_batch c)) \<in> set (batch_data (gstate\<lparr>batch_data := ?m\<rparr>))"
      by simp
    from a p have "NextBatch vector_size gstate state =
        Done (FlushBatchData (gstate\<lparr>batch_data := ?m\<rparr>) ?min, ?next)"
      by (simp add: NextBatch_def Let_def InitializeCollection_def)
    with p mem show ?thesis by blast
  qed
  have c5: "\<exists>added.
                AddBatchData gstate (batch_index state) c = Done added
                \<and> (batch_index state, c) \<in> set (raw_batches added)
                \<and> NextBatch vector_size gstate state =
                    (case RepartitionBatches vector_size added ?min False of
                       Raised e g \<Rightarrow> Raised e (g, state\<lparr>collection := None\<rparr>)
                     | Done repartitioned \<Rightarrow> Done (FlushBatchData repartitioned ?min, ?next))"
    if a: "collection state = Some c \<and> batch_size gstate \<noteq> 0
           \<and> batch_index state \<notin> fst ` set (raw_batches gstate)" for c
  proof -
    let ?m = "fst (map_insert (batch_index state) c (raw_batches gstate))"
    from a have "snd (map_insert (batch_index state) c (raw_batches gstate))"
      by (simp add: map_insert_fresh)
    then have ins: "map_insert (batch_index state) c (raw_batches gstate) = (?m, True)"
      by (cases "map_insert (batch_index state) c (raw_batches gstate)") simp
    then have p: "AddBatchData gstate (batch_index state) c = Done (gstate\<lparr>raw_batches := ?m\<rparr>)"
      by (auto simp: AddBatchData_def split: prod.splits)
    from map_insert_inserted [OF ins]
    have mem: "(batch_index state, c) \<in> set (raw_batches (gstate\<lparr>raw_batches := ?m\<rparr>))"
      by simp
    from a p have "NextBatch vector_size gstate state =
        (case RepartitionBatches vector_size (gstate\<lparr>raw_batches := ?m\<rparr>) ?min False of
           Raised e g \<Rightarrow> Raised e (g, state\<lparr>collection := None\<rparr>)
         | Done repartitioned \<Rightarrow> Done (FlushBatchData repartitioned ?min, ?next))"
      by (simp add: NextBatch_def Let_def InitializeCollection_def split: outcome.splits)
    with p mem show ?thesis by blast
  qed
  have c6: "NextBatch vector_size gstate state =
               Raised (DuplicateBatchIndex (batch_index state)) (gstate, state\<lparr>collection := None\<rparr>)"
    if a: "collection state = Some c
           \<and> (if batch_size gstate \<noteq> 0
               then strictly_ordered (raw_batches gstate)
                    \<and> batch_index state \<in> fst ` set (raw_batches gstate)
               else strictly_ordered (batch_data gstate)
                    \<and> batch_index state \<in> fst ` set (batch_data gstate))" for c
  proof (cases "batch_size gstate = 0")
    case True
    with a have "map_insert (batch_index state) (Some (prepare_batch c)) (batch_data gstate)
                   = (batch_data gstate, False)"
      by (simp add: map_insert_present)
    then have "PrepareBatchData gstate (batch_index state) c =
                 Raised (DuplicateBatchIndex (batch_index state)) gstate"
      by (simp add: PrepareBatchData_def Let_def)
    with a True show ?thesis by (simp add: NextBatch_def Let_def)
  next
    case False
    with a have "map_insert (batch_index state) c (raw_batches gstate) = (raw_batches gstate, False)"
      by (simp add: map_insert_present)
    then have "AddBatchData gstate (batch_index state) c =
                 Raised (DuplicateBatchIndex (batch_index state)) gstate"
      by (simp add: AddBatchData_def)
    with a False show ?thesis by (simp add: NextBatch_def Let_def)
  qed
  note old = NextBatch_hand_off_cases [of state vector_size gstate]
  show ?thesis
    by (rule conjI [OF conjunct1 [OF old] conjI [OF conjunct1 [OF conjunct2 [OF old]]
          conjI [OF conjunct2 [OF conjunct2 [OF old]]
            conjI [OF allI [OF impI [OF c4]] conjI [OF allI [OF impI [OF c5]] allI [OF impI [OF c6]]]]]]])
qed

theorem NextBatch_hands_off_any_collection_witness:
  "collection (GetLocalSinkState \<lparr>partition_batch_index = 0, partition_min_batch_index = 0\<rparr>
                 :: nat BatchCopyToLocalState) = None
   \<and> NextBatch 2048 (GetGlobalSinkState 0)
        (GetLocalSinkState \<lparr>partition_batch_index = 0, partition_min_batch_index = 0\<rparr> :: nat BatchCopyToLocalState) =
       Done (GetGlobalSinkState 0, l_empty\<lparr>partition_info := \<lparr>partition_batch_index = 0, partition_min_batch_index = 0\<rparr>\<rparr>)
   \<and> collection l_empty = Some [] \<and> batch_size (GetGlobalSinkState 0 :: nat BatchCopyToGlobalState) = 0
   \<and> NextBatch 2048 (GetGlobalSinkState 0) l_empty =
       Done (outcome_state (NextBatch 2048 (GetGlobalSinkState 0) l_empty))
   \<and> ((batch_index l_empty, Some (prepare_batch []))
          \<in> set (batch_data (fst (outcome_state (NextBatch 2048 (GetGlobalSinkState 0) l_empty))))
       \<or> (\<exists>new. global_state (fst (outcome_state (NextBatch 2048 (GetGlobalSinkState 0) l_empty))) =
                  global_state (GetGlobalSinkState 0 :: nat BatchCopyToGlobalState) @ new
               \<and> (FlushLock, prepare_batch []) \<in> set new))
   \<and> batch_size (GetGlobalSinkState 5 :: nat BatchCopyToGlobalState) \<noteq> 0
   \<and> batch_index l_empty \<notin> fst ` set (raw_batches (GetGlobalSinkState 5 :: nat BatchCopyToGlobalState))
   \<and> rows_below 1 (fst (map_insert (batch_index l_empty) []
                           (raw_batches (GetGlobalSinkState 5 :: nat BatchCopyToGlobalState)))) < unat (5 :: idx_t)
   \<and> (\<exists>g' l'. NextBatch 2048 (GetGlobalSinkState 5) l_empty = Done (g', l')
            \<and> (batch_index l_empty, []) \<in> set (raw_batches g'))
   \<and> batch_index l_empty \<notin> fst ` set (batch_data (GetGlobalSinkState 0 :: nat BatchCopyToGlobalState))
   \<and> NextBatch 2048 (GetGlobalSinkState 0) l_empty =
       Done ((GetGlobalSinkState 0)\<lparr>global_state := [(FlushLock, PreparedBatchData [])],
                                     active_flush := True\<rparr>,
             l_empty\<lparr>batch_index := 1\<rparr>)
   \<and> collection l_next = Some [] \<and> batch_size g_busy \<noteq> 0
   \<and> batch_index l_next \<notin> fst ` set (raw_batches g_busy)
   \<and> AddBatchData g_busy (batch_index l_next) [] =
       Done (g_busy\<lparr>raw_batches := [(0, [[7, 8], [9]]), (1, [])]\<rparr>)
   \<and> NextBatch 2 g_busy l_next =
       Done (g_busy\<lparr>raw_batches := [],
                    global_state := [(Lock, PreparedBatchData [[7, 8], [9]])],
                    active_flush := True\<rparr>,
             l_next\<lparr>batch_index := 2\<rparr>)
   \<and> strictly_ordered (raw_batches g_raw_taken)
   \<and> batch_index l_empty \<in> fst ` set (raw_batches g_raw_taken)
   \<and> NextBatch 2048 g_raw_taken l_empty =
       Raised (DuplicateBatchIndex 0) (g_raw_taken, l_empty\<lparr>collection := None\<rparr>)
   \<and> strictly_ordered (batch_data g_prepared_taken)
   \<and> batch_index l_empty \<in> fst ` set (batch_data g_prepared_taken)
   \<and> NextBatch 2048 g_prepared_taken l_empty =
       Raised (DuplicateBatchIndex 0) (g_prepared_taken, l_empty\<lparr>collection := None\<rparr>)"
proof -
  let ?l0 = "GetLocalSinkState \<lparr>partition_batch_index = 0, partition_min_batch_index = 0\<rparr> :: nat BatchCopyToLocalState"
  let ?g0 = "GetGlobalSinkState 0 :: nat BatchCopyToGlobalState"
  let ?g5 = "GetGlobalSinkState 5 :: nat BatchCopyToGlobalState"
  let ?s = "outcome_state (NextBatch 2048 ?g0 l_empty)"
  have n: "collection ?l0 = None" by (simp add: GetLocalSinkState_def)
  have first: "NextBatch 2048 ?g0 ?l0 =
       Done (?g0, l_empty\<lparr>partition_info := \<lparr>partition_batch_index = 0, partition_min_batch_index = 0\<rparr>\<rparr>)"
    using NextBatch_hands_off_any_collection [of ?l0 2048 ?g0, THEN conjunct1] n
    by (simp add: GetLocalSinkState_def l_empty_def)
  have c: "collection l_empty = Some []" "batch_size ?g0 = 0"
    by (simp_all add: l_empty_def GetGlobalSinkState_def)
  have r: "NextBatch 2048 ?g0 l_empty = Done (fst ?s, snd ?s)"
    by code_simp
  note k2 = NextBatch_hands_off_any_collection [of l_empty 2048 ?g0, THEN conjunct2, THEN conjunct1, rule_format,
              OF conjI [OF c(1) conjI [OF c(2) r]]]
  have h: "batch_size ?g5 \<noteq> 0" "batch_index l_empty \<notin> fst ` set (raw_batches ?g5)"
      "rows_below 1 (fst (map_insert (batch_index l_empty) [] (raw_batches ?g5))) < unat (5 :: idx_t)"
    by (simp_all add: l_empty_def GetGlobalSinkState_def rows_below_def Rows_def)
  have pi: "partition_min_batch_index (partition_info l_empty) = 1" "batch_size ?g5 = 5"
      "partition_batch_index (partition_info l_empty) = 1" "batch_index l_empty = 0"
    by (simp_all add: l_empty_def GetGlobalSinkState_def)
  have h3: "rows_below (partition_min_batch_index (partition_info l_empty))
              (fst (map_insert (batch_index l_empty) [] (raw_batches ?g5))) < unat (batch_size ?g5)"
    using h(3) by (simp only: pi)
  note k3 = NextBatch_hands_off_any_collection [of l_empty 2048 ?g5, THEN conjunct2, THEN conjunct2, THEN conjunct1,
              rule_format, OF conjI [OF c(1) conjI [OF h(1) conjI [OF h(2) h3]]]]
  have fresh0: "batch_index l_empty \<notin> fst ` set (batch_data ?g0)"
    by (simp add: GetGlobalSinkState_def)
  note k4 = NextBatch_hands_off_any_collection [of l_empty 2048 ?g0, THEN conjunct2, THEN conjunct2, THEN conjunct2,
              THEN conjunct1, rule_format, OF conjI [OF c(1) conjI [OF c(2) fresh0]]]
  have prep: "PrepareBatchData ?g0 (batch_index l_empty) [] =
                Done (?g0\<lparr>batch_data := [(0, Some (PreparedBatchData []))]\<rparr>)"
    by code_simp
  have flush: "FlushBatchData (?g0\<lparr>batch_data := [(0, Some (PreparedBatchData []))]\<rparr>) 1 =
                ?g0\<lparr>global_state := [(FlushLock, PreparedBatchData [])], active_flush := True\<rparr>"
    by code_simp
  have lnext: "l_empty\<lparr>batch_index := 1, collection := Some []\<rparr> = l_empty\<lparr>batch_index := 1\<rparr>"
    by (simp add: l_empty_def)
  from k4 obtain prepared where
    p1: "PrepareBatchData ?g0 (batch_index l_empty) [] = Done prepared"
    and p2: "NextBatch 2048 ?g0 l_empty =
               Done (FlushBatchData prepared (partition_min_batch_index (partition_info l_empty)),
                     l_empty\<lparr>batch_index := partition_batch_index (partition_info l_empty),
                             collection := Some []\<rparr>)"
    by blast
  from p1 prep have "prepared = ?g0\<lparr>batch_data := [(0, Some (PreparedBatchData []))]\<rparr>"
    by (simp only: outcome.inject)
  with p2 have fourth: "NextBatch 2048 ?g0 l_empty =
       Done (?g0\<lparr>global_state := [(FlushLock, PreparedBatchData [])], active_flush := True\<rparr>,
             l_empty\<lparr>batch_index := 1\<rparr>)"
    by (simp only: pi flush lnext)
  have b: "collection l_next = Some []" "batch_size g_busy \<noteq> 0"
      "batch_index l_next \<notin> fst ` set (raw_batches g_busy)"
    by (simp_all add: l_next_def g_busy_def GetGlobalSinkState_def)
  have pn: "partition_min_batch_index (partition_info l_next) = 2"
      "partition_batch_index (partition_info l_next) = 2"
    by (simp_all add: l_next_def)
  note k5 = NextBatch_hands_off_any_collection [of l_next 2 g_busy, THEN conjunct2, THEN conjunct2, THEN conjunct2,
              THEN conjunct2, THEN conjunct1, rule_format, OF conjI [OF b(1) conjI [OF b(2) b(3)]]]
  have add: "AddBatchData g_busy (batch_index l_next) [] =
       Done (g_busy\<lparr>raw_batches := [(0, [[7, 8], [9]]), (1, [])]\<rparr>)"
    by code_simp
  have rep: "RepartitionBatches 2 (g_busy\<lparr>raw_batches := [(0, [[7, 8], [9]]), (1, [])]\<rparr>) 2 False =
       Done (g_busy\<lparr>raw_batches := [],
                    global_state := [(Lock, PreparedBatchData [[7, 8], [9]])]\<rparr>)"
    by code_simp
  have flush2: "FlushBatchData (g_busy\<lparr>raw_batches := [],
                    global_state := [(Lock, PreparedBatchData [[7, 8], [9]])]\<rparr>) 2 =
       g_busy\<lparr>raw_batches := [],
                    global_state := [(Lock, PreparedBatchData [[7, 8], [9]])],
                    active_flush := True\<rparr>"
    by code_simp
  have lnext2: "l_next\<lparr>batch_index := 2, collection := Some []\<rparr> = l_next\<lparr>batch_index := 2\<rparr>"
    by (simp add: l_next_def)
  from k5 obtain added where
    a1: "AddBatchData g_busy (batch_index l_next) [] = Done added"
    and a2: "NextBatch 2 g_busy l_next =
               (case RepartitionBatches 2 added (partition_min_batch_index (partition_info l_next)) False of
                  Raised e g \<Rightarrow> Raised e (g, l_next\<lparr>collection := None\<rparr>)
                | Done repartitioned \<Rightarrow>
                    Done (FlushBatchData repartitioned (partition_min_batch_index (partition_info l_next)),
                          l_next\<lparr>batch_index := partition_batch_index (partition_info l_next),
                                 collection := Some []\<rparr>))"
    by blast
  from a1 add have "added = g_busy\<lparr>raw_batches := [(0, [[7, 8], [9]]), (1, [])]\<rparr>"
    by (simp only: outcome.inject)
  with a2 have fifth: "NextBatch 2 g_busy l_next =
       Done (g_busy\<lparr>raw_batches := [],
                    global_state := [(Lock, PreparedBatchData [[7, 8], [9]])],
                    active_flush := True\<rparr>,
             l_next\<lparr>batch_index := 2\<rparr>)"
    by (simp only: pn rep outcome.case flush2 lnext2)
  have o1: "strictly_ordered (raw_batches g_raw_taken)"
      "batch_index l_empty \<in> fst ` set (raw_batches g_raw_taken)" "batch_size g_raw_taken \<noteq> 0"
    by (simp_all add: g_raw_taken_def GetGlobalSinkState_def strictly_ordered_def l_empty_def)
  from o1 have hyp1: "if batch_size g_raw_taken \<noteq> 0
               then strictly_ordered (raw_batches g_raw_taken)
                    \<and> batch_index l_empty \<in> fst ` set (raw_batches g_raw_taken)
               else strictly_ordered (batch_data g_raw_taken)
                    \<and> batch_index l_empty \<in> fst ` set (batch_data g_raw_taken)"
    by simp
  note k6a = NextBatch_hands_off_any_collection [of l_empty 2048 g_raw_taken, THEN conjunct2, THEN conjunct2, THEN conjunct2,
              THEN conjunct2, THEN conjunct2, rule_format, OF conjI [OF c(1) hyp1]]
  have o2: "strictly_ordered (batch_data g_prepared_taken)"
      "batch_index l_empty \<in> fst ` set (batch_data g_prepared_taken)" "batch_size g_prepared_taken = 0"
    by (simp_all add: g_prepared_taken_def GetGlobalSinkState_def strictly_ordered_def l_empty_def)
  from o2 have hyp2: "if batch_size g_prepared_taken \<noteq> 0
               then strictly_ordered (raw_batches g_prepared_taken)
                    \<and> batch_index l_empty \<in> fst ` set (raw_batches g_prepared_taken)
               else strictly_ordered (batch_data g_prepared_taken)
                    \<and> batch_index l_empty \<in> fst ` set (batch_data g_prepared_taken)"
    by simp
  note k6b = NextBatch_hands_off_any_collection [of l_empty 2048 g_prepared_taken, THEN conjunct2, THEN conjunct2, THEN conjunct2,
              THEN conjunct2, THEN conjunct2, rule_format, OF conjI [OF c(1) hyp2]]
  have sixth: "NextBatch 2048 g_raw_taken l_empty =
       Raised (DuplicateBatchIndex 0) (g_raw_taken, l_empty\<lparr>collection := None\<rparr>)"
      "NextBatch 2048 g_prepared_taken l_empty =
       Raised (DuplicateBatchIndex 0) (g_prepared_taken, l_empty\<lparr>collection := None\<rparr>)"
    using k6a k6b by (simp_all only: pi)
  have r': "NextBatch 2048 ?g0 l_empty = Done ?s" using r by simp
  have h3': "rows_below 1 (fst (map_insert (batch_index l_empty) [] (raw_batches ?g5))) < unat (5 :: idx_t)"
    by (rule h(3))
  from n first c r' k2 h(1) h(2) h3' k3 fresh0 fourth b add fifth o1(1) o1(2) sixth(1) o2(1) o2(2) sixth(2)
  show ?thesis by (intro conjI)
qed

text \<open>
  Claim C10 as stated fails. After its first transition a producer owns an empty
  collection; with no row sunk, the next transition submits it: with no target batch size
  a batch of zero rows is prepared and passed to \<open>flush_batch\<close>, and with target size 5 a
  collection of zero rows is entered into the raw map.
\<close>

theorem empty_collection_is_flushed:
  "run 2048 [NextBatchEvent 0 0 0] (initial_state 0 1) =
     Done (GetGlobalSinkState 0,
           [\<lparr>collection = Some [], local_rows_copied = 0, batch_index = 0,
             partition_info = \<lparr>partition_batch_index = 0, partition_min_batch_index = 0\<rparr>\<rparr>
             :: nat BatchCopyToLocalState])
   \<and> Count ([] :: nat ColumnDataCollection) = 0
   \<and> run 2048 schedule_empty_batch (initial_state 0 1) =
       Done (outcome_state (run 2048 schedule_empty_batch (initial_state 0 1)))
   \<and> global_state (fst (outcome_state (run 2048 schedule_empty_batch (initial_state 0 1))))
       = [(FlushLock, prepare_batch [])]
   \<and> raw_batches (fst (outcome_state (run 2048 schedule_empty_batch (initial_state 5 1))))
       = [(0, [])]"
  by code_simp

subsection \<open>The maps stay ordered\<close>

text \<open>
  The order that the statements about duplicate indices assume of the two maps holds in
  every state an execution reaches from the initial state.
\<close>

lemma strictly_ordered_dropWhile:
  "strictly_ordered m \<Longrightarrow> strictly_ordered (dropWhile P m)"
  by (induction m) (auto simp: strictly_ordered_def)

lemma strictly_ordered_leftover:
  fixes min_index :: idx_t
  assumes "strictly_ordered m" and "takeWhile (\<lambda>e. fst e < min_index) m \<noteq> []"
  shows "strictly_ordered (map_assign (fst (last (takeWhile (\<lambda>e. fst e < min_index) m))) v
                              (dropWhile (\<lambda>e. fst e < min_index) m))"
proof -
  let ?P = "\<lambda>e. fst e < min_index"
  let ?k = "fst (last (takeWhile ?P m))"
  have front: "map_assign ?k v (dropWhile ?P m) = (?k, v) # dropWhile ?P m"
    using last_takeWhile_below_hd_dropWhile [OF assms(2)] by (rule map_assign_front)
  from assms(2) have "last (takeWhile ?P m) \<in> set (takeWhile ?P m)" by simp
  then have below: "?k < min_index" by (auto dest: set_takeWhileD)
  have "\<forall>x \<in> set (dropWhile ?P m). ?k < fst x"
  proof
    fix x assume x: "x \<in> set (dropWhile ?P m)"
    from assms(1) have "sorted_wrt (<) (map fst (takeWhile ?P m @ dropWhile ?P m))"
      by (simp add: strictly_ordered_def)
    then have "\<forall>a \<in> set (takeWhile ?P m). \<forall>b \<in> set (dropWhile ?P m). fst a < fst b"
      by (simp only: map_append sorted_wrt_append) auto
    with x \<open>last (takeWhile ?P m) \<in> set (takeWhile ?P m)\<close> show "?k < fst x" by blast
  qed
  with strictly_ordered_dropWhile [OF assms(1), of ?P] front show ?thesis
    by (simp add: strictly_ordered_Cons)
qed

lemma RepartitionBatches_ordered:
  assumes "strictly_ordered (raw_batches gstate)"
  shows "strictly_ordered (raw_batches (outcome_state (RepartitionBatches vector_size gstate min_index final)))
       \<and> batch_data (outcome_state (RepartitionBatches vector_size gstate min_index final)) = batch_data gstate"
  using assms strictly_ordered_dropWhile [OF assms, of "\<lambda>e. fst e < min_index"]
    strictly_ordered_leftover [OF assms, of min_index]
  by (auto simp: RepartitionBatches_unfold Let_def split: prod.splits option.splits)

lemma FlushBatchData_ordered:
  assumes "strictly_ordered (batch_data gstate)"
  shows "strictly_ordered (batch_data (FlushBatchData gstate min_index))"
proof -
  from FlushBatchData_split [of gstate min_index]
  obtain flushed where "batch_data gstate = map (\<lambda>e. (fst e, Some (snd e))) flushed
                  @ batch_data (FlushBatchData gstate min_index)" by blast
  with assms have "sorted_wrt (<) (map fst (map (\<lambda>e. (fst e, Some (snd e))) flushed
                  @ batch_data (FlushBatchData gstate min_index)))"
    by (simp add: strictly_ordered_def)
  then show ?thesis
    unfolding strictly_ordered_def by (simp only: map_append sorted_wrt_append)
qed

lemma AddBatchData_ordered:
  "maps_ordered gstate \<Longrightarrow> maps_ordered (outcome_state (AddBatchData gstate k c))"
  using map_insert_ordered [of "raw_batches gstate" k c]
  by (auto simp: maps_ordered_def AddBatchData_def split: prod.splits)

lemma PrepareBatchData_ordered:
  "maps_ordered gstate \<Longrightarrow> maps_ordered (outcome_state (PrepareBatchData gstate k c))"
  using map_insert_ordered [of "batch_data gstate" k "Some (prepare_batch c)"]
  by (auto simp: maps_ordered_def PrepareBatchData_def Let_def split: prod.splits)

lemma RepartitionBatches_maps_ordered:
  "maps_ordered gstate \<Longrightarrow>
     maps_ordered (outcome_state (RepartitionBatches vector_size gstate min_index final))"
  using RepartitionBatches_ordered [of gstate vector_size min_index final]
  by (simp add: maps_ordered_def)

lemma FlushBatchData_maps_ordered:
  "maps_ordered gstate \<Longrightarrow> maps_ordered (FlushBatchData gstate min_index)"
  using FlushBatchData_ordered [of gstate min_index] FlushBatchData_frame [of gstate min_index]
  by (simp add: maps_ordered_def)

lemma NextBatch_maps_ordered:
  assumes "maps_ordered gstate"
  shows "maps_ordered (fst (outcome_state (NextBatch vector_size gstate state)))"
proof (cases "collection state")
  case None
  with assms show ?thesis by (simp add: NextBatch_def)
next
  case (Some c)
  let ?min = "partition_min_batch_index (partition_info state)"
  show ?thesis
  proof (cases "batch_size gstate = 0")
    case True
    from PrepareBatchData_ordered [OF assms, of "batch_index state" c]
    show ?thesis
      by (cases "PrepareBatchData gstate (batch_index state) c")
         (simp_all add: NextBatch_def Let_def Some True FlushBatchData_maps_ordered)
  next
    case False
    show ?thesis
    proof (cases "AddBatchData gstate (batch_index state) c")
      case (Raised e g)
      with AddBatchData_ordered [OF assms, of "batch_index state" c] show ?thesis
        by (simp add: NextBatch_def Let_def Some False)
    next
      case (Done added)
      with AddBatchData_ordered [OF assms, of "batch_index state" c]
      have a: "maps_ordered added" by simp
      from RepartitionBatches_maps_ordered [OF a, of vector_size ?min False] Done show ?thesis
        by (cases "RepartitionBatches vector_size added ?min False")
           (simp_all add: NextBatch_def Let_def Some False FlushBatchData_maps_ordered)
    qed
  qed
qed

lemma Finalize_maps_ordered:
  assumes "maps_ordered gstate"
  shows "maps_ordered (outcome_state (Finalize vector_size gstate))"
proof (cases "raw_batches gstate = []")
  case True
  with assms show ?thesis by (simp add: Finalize_def Let_def FlushBatchData_maps_ordered)
next
  case False
  from RepartitionBatches_maps_ordered [OF assms, of vector_size "0x7FFFFFFFFFFFFFFF" True] False
  show ?thesis
    by (cases "RepartitionBatches vector_size gstate 0x7FFFFFFFFFFFFFFF True")
       (simp_all add: Finalize_def Let_def FlushBatchData_maps_ordered)
qed

lemma step_maps_ordered:
  assumes "maps_ordered (fst s)"
  shows "maps_ordered (fst (outcome_state (step vector_size ev s)))"
proof -
  obtain g ls where s: "s = (g, ls)" by (cases s)
  with assms have g: "maps_ordered g" by simp
  show ?thesis
  proof (cases ev)
    case (SinkEvent t chunk)
    with g show ?thesis by (simp add: s)
  next
    case (NextBatchEvent t next_index min_index)
    let ?l = "(ls ! t)\<lparr>partition_info := \<lparr>partition_batch_index = next_index,
                                              partition_min_batch_index = min_index\<rparr>\<rparr>"
    from NextBatch_maps_ordered [OF g, of vector_size ?l] g show ?thesis
      by (cases "NextBatch vector_size g ?l") (auto simp: s NextBatchEvent)
  next
    case (CombineEvent t)
    with g show ?thesis by (simp add: s Combine_def maps_ordered_def)
  next
    case FinalizeEvent
    from Finalize_maps_ordered [OF g, of vector_size] show ?thesis
      by (cases "Finalize vector_size g") (simp_all add: s FinalizeEvent)
  qed
qed

lemma run_maps_ordered:
  "maps_ordered (fst s) \<Longrightarrow> maps_ordered (fst (outcome_state (run vector_size evs s)))"
proof (induction evs arbitrary: s)
  case Nil
  then show ?case by simp
next
  case (Cons ev evs)
  from step_maps_ordered [OF Cons.prems, of vector_size ev] Cons.IH show ?case
    by (cases "step vector_size ev s") simp_all
qed

lemma reachable_maps_ordered:
  "maps_ordered (fst (outcome_state (run vector_size evs (initial_state desired_batch_size producers))))"
  by (rule run_maps_ordered) (simp add: initial_state_def GetGlobalSinkState_def maps_ordered_def strictly_ordered_def)

end
